theory Spec2Isabelle
  imports Complex_Main "HOL-Library.Word"
begin

unbundle bit_operations_syntax

section \<open>Infinite canvas: the spatial streaming engine of scene.tsx\<close>

text \<open>
  A shallow embedding of \<^verbatim>\<open>src/infinite-canvas/scene.tsx\<close>. JavaScript numbers are
  modelled as mathematical reals (integers where the source only ever holds integers:
  chunk coordinates, list lengths, pixel dimensions, 32-bit hash values), without the
  rounding of IEEE 754 arithmetic. The integration of the frame callback is embedded a
  second time with that rounding, for the bounds a unit in the last place decides.
  \<^verbatim>\<open>Math.sin\<close> is a built-in of the host; it is a parameter \<open>msin\<close> of every definition
  that reaches it.
\<close>

subsection \<open>Constants\<close>

definition CHUNK_SIZE :: real where "CHUNK_SIZE = 110"
definition ITEMS_PER_CHUNK :: nat where "ITEMS_PER_CHUNK = 5"
definition RENDER_DISTANCE :: int where "RENDER_DISTANCE = 2"
definition CHUNK_FADE_MARGIN :: int where "CHUNK_FADE_MARGIN = 1"
definition MAX_VELOCITY :: real where "MAX_VELOCITY = 3.2"
definition VISIBILITY_LERP :: real where "VISIBILITY_LERP = 0.18"
definition DEPTH_FADE_START :: real where "DEPTH_FADE_START = 140"
definition DEPTH_FADE_END :: real where "DEPTH_FADE_END = 260"
definition MAX_DIST :: int where "MAX_DIST = RENDER_DISTANCE + CHUNK_FADE_MARGIN"

subsection \<open>Data\<close>

record vec3 =
  vec_x :: real
  vec_y :: real
  vec_z :: real

definition Vector3 :: "real \<Rightarrow> real \<Rightarrow> real \<Rightarrow> vec3" where
  "Vector3 a b c = \<lparr>vec_x = a, vec_y = b, vec_z = c\<rparr>"

datatype MediaType = image | video

record MediaItem =
  url :: string
  type :: MediaType

record PlaneData =
  plane_id :: string
  position :: vec3
  scale :: vec3
  mediaIndex :: int

subsection \<open>Numbers as strings\<close>

text \<open>
  Template literals print an integer-valued number in decimal, with a leading minus sign
  when it is negative (the exponent notation of magnitudes from \<open>10\<^sup>2\<^sup>1\<close> on is not
  modelled: chunk coordinates are integers far below it).
\<close>

definition digitChar :: "nat \<Rightarrow> char" where
  "digitChar d = char_of (48 + d)"

fun natToString :: "nat \<Rightarrow> string" where
  "natToString n =
     (if n < 10 then [digitChar n] else natToString (n div 10) @ [digitChar (n mod 10)])"

declare natToString.simps [simp del]

definition numberToString :: "int \<Rightarrow> string" where
  "numberToString i =
     (if i < 0 then CHR ''-'' # natToString (nat (- i)) else natToString (nat i))"

subsection \<open>Seeded random, hash, clamp, lerp\<close>

definition seededRandom :: "(real \<Rightarrow> real) \<Rightarrow> real \<Rightarrow> real" where
  "seededRandom msin seed = (let x = msin (seed * 9999) * 10000 in x - of_int \<lfloor>x\<rfloor>)"

text \<open>
  \<^verbatim>\<open>h = ((h << 5) - h + str.charCodeAt(i)) | 0\<close>: \<open>h\<close> is a signed 32-bit value after
  every round, the shift wraps at 32 bits, and the difference and sum are exact before
  \<^verbatim>\<open>| 0\<close> wraps them again; this is arithmetic in \<open>32 word\<close>, read back as signed.
\<close>

fun hashLoop :: "32 word \<Rightarrow> string \<Rightarrow> 32 word" where
  "hashLoop h [] = h"
| "hashLoop h (c # cs) = hashLoop (push_bit 5 h - h + of_nat (of_char c)) cs"

definition hashString :: "string \<Rightarrow> int" where
  "hashString str = \<bar>sint (hashLoop 0 str)\<bar>"

definition clamp :: "real \<Rightarrow> real \<Rightarrow> real \<Rightarrow> real" where
  "clamp v mn mx = max mn (min mx v)"

definition lerp :: "real \<Rightarrow> real \<Rightarrow> real \<Rightarrow> real" where
  "lerp a b t = a + (b - a) * t"

subsection \<open>Placement generation\<close>

definition chunkKey :: "int \<Rightarrow> int \<Rightarrow> int \<Rightarrow> string" where
  "chunkKey cx cy cz =
     numberToString cx @ '','' @ numberToString cy @ '','' @ numberToString cz"

definition planeId :: "int \<Rightarrow> int \<Rightarrow> int \<Rightarrow> nat \<Rightarrow> string" where
  "planeId cx cy cz i =
     numberToString cx @ ''-'' @ numberToString cy @ ''-'' @ numberToString cz @ ''-''
       @ natToString i"

definition makePlane ::
  "(real \<Rightarrow> real) \<Rightarrow> int \<Rightarrow> int \<Rightarrow> int \<Rightarrow> nat \<Rightarrow> int \<Rightarrow> nat \<Rightarrow> PlaneData" where
  "makePlane msin cx cy cz mediaCount seed i =
     (let s = of_int seed + of_nat i * 1000;
          r = (\<lambda>n. seededRandom msin (s + n));
          size = 12 + r 4 * 8
      in \<lparr>plane_id = planeId cx cy cz i,
          position = Vector3 (of_int cx * CHUNK_SIZE + r 0 * CHUNK_SIZE)
                             (of_int cy * CHUNK_SIZE + r 1 * CHUNK_SIZE)
                             (of_int cz * CHUNK_SIZE + r 2 * CHUNK_SIZE),
          scale = Vector3 size size 1,
          mediaIndex = \<lfloor>r 5 * of_nat mediaCount\<rfloor>\<rparr>)"

definition generateChunkPlanes ::
  "(real \<Rightarrow> real) \<Rightarrow> int \<Rightarrow> int \<Rightarrow> int \<Rightarrow> nat \<Rightarrow> PlaneData list" where
  "generateChunkPlanes msin cx cy cz mediaCount =
     (let seed = hashString (chunkKey cx cy cz)
      in map (makePlane msin cx cy cz mediaCount seed) [0..<ITEMS_PER_CHUNK])"


subsection \<open>Texture cache\<close>

text \<open>
  The two module-level maps, and what \<^verbatim>\<open>getTexture\<close> creates. Objects have an identity:
  \<open>allocated\<close> counts the objects created so far and numbers the next one. The log
  \<open>imageLoads\<close> records every \<^verbatim>\<open>new THREE.TextureLoader().load(url)\<close>, and
  \<open>videosCreated\<close> every \<^verbatim>\<open>document.createElement("video")\<close>, in order. A texture
  carries its media element as it is when the texture is created: a video texture wraps the
  new video element, which reports 0 by 0 until its metadata is read; a texture from the
  loader has no image until the load completes. The sampling parameters set on a new
  texture (filters, mipmaps, anisotropy) carry no identity and are left out.
\<close>

datatype MediaElement =
    HTMLVideoElement (videoWidth: nat) (videoHeight: nat)
  | HTMLImageElement (complete: bool) (naturalWidth: nat) (naturalHeight: nat)
      (width: nat) (height: nat)
  | OtherElement

record Texture =
  texture_id :: nat
  texture_image :: "MediaElement option"

record VideoElement =
  video_id :: nat
  video_src :: string

record CacheState =
  textureCache :: "string \<rightharpoonup> Texture"
  videoElements :: "string \<rightharpoonup> VideoElement"
  allocated :: nat
  imageLoads :: "string list"
  videosCreated :: "string list"

definition emptyCache :: CacheState where
  "emptyCache = \<lparr>textureCache = Map.empty, videoElements = Map.empty, allocated = 0,
     imageLoads = [], videosCreated = []\<rparr>"

definition createVideo :: "string \<Rightarrow> CacheState \<Rightarrow> VideoElement \<times> CacheState" where
  "createVideo u s =
     (let v = \<lparr>video_id = allocated s, video_src = u\<rparr>
      in (v, s\<lparr>videoElements := (videoElements s)(u \<mapsto> v),
               allocated := allocated s + 1,
               videosCreated := videosCreated s @ [u]\<rparr>))"

definition getTexture :: "MediaItem \<Rightarrow> CacheState \<Rightarrow> Texture \<times> CacheState" where
  "getTexture item s =
     (case textureCache s (url item) of
        Some cachedTexture \<Rightarrow> (cachedTexture, s)
      | None \<Rightarrow>
          if type item = video then
            (let (v, s1) = (case videoElements s (url item) of
                              Some v \<Rightarrow> (v, s)
                            | None \<Rightarrow> createVideo (url item) s);
                 texture = \<lparr>texture_id = allocated s1,
                            texture_image = Some (HTMLVideoElement 0 0)\<rparr>
             in (texture, s1\<lparr>textureCache := (textureCache s1)(url item \<mapsto> texture),
                            allocated := allocated s1 + 1\<rparr>))
          else
            (let texture = \<lparr>texture_id = allocated s, texture_image = None\<rparr>
             in (texture, s\<lparr>textureCache := (textureCache s)(url item \<mapsto> texture),
                           allocated := allocated s + 1,
                           imageLoads := imageLoads s @ [url item]\<rparr>)))"

text \<open>A sequence of calls, threading the cache; the textures returned, in call order.\<close>

fun getTextures :: "MediaItem list \<Rightarrow> CacheState \<Rightarrow> Texture list \<times> CacheState" where
  "getTextures [] s = ([], s)"
| "getTextures (item # items) s =
     (let (t, s1) = getTexture item s; (ts, s2) = getTextures items s1 in (t # ts, s2))"

subsection \<open>Media plane: displayed scale\<close>

definition getMediaDimensions :: "MediaElement option \<Rightarrow> nat option \<times> nat option" where
  "getMediaDimensions media =
     (case media of
        Some (HTMLVideoElement vw vh) \<Rightarrow> (Some vw, Some vh)
      | Some (HTMLImageElement _ nw nh w h) \<Rightarrow>
          (Some (if nw \<noteq> 0 then nw else w), Some (if nh \<noteq> 0 then nh else h))
      | _ \<Rightarrow> (None, None))"

text \<open>\<^verbatim>\<open>!n\<close> for a number or undefined: true for undefined and for zero.\<close>

definition falsy :: "nat option \<Rightarrow> bool" where
  "falsy n = (case n of None \<Rightarrow> True | Some k \<Rightarrow> k = 0)"

definition displayScale :: "vec3 \<Rightarrow> Texture option \<Rightarrow> vec3" where
  "displayScale scl texture =
     (case texture of
        None \<Rightarrow> scl
      | Some tex \<Rightarrow>
          (let (naturalWidth, naturalHeight) = getMediaDimensions (texture_image tex)
           in if falsy naturalWidth \<or> falsy naturalHeight then scl
              else (case (naturalWidth, naturalHeight) of
                      (Some w, Some h) \<Rightarrow>
                        (let q = real w / real h;
                             aspect = (if q \<noteq> 0 then q else 1)
                         in Vector3 (vec_y scl * aspect) (vec_y scl) 1)
                    | _ \<Rightarrow> scl)))"

text \<open>
  \<^verbatim>\<open>displayScale\<close> above is the callback of \<^verbatim>\<open>React.useMemo(..., [scale, texture])\<close>. The hook
  keeps the dependencies and the value of its last computation, and calls the callback
  again only when a dependency is a different object: both are compared by identity. The
  \<^verbatim>\<open>scale\<close> prop is a \<^verbatim>\<open>THREE.Vector3\<close> object, with an identity and the components it
  holds. The texture is held by identity too; the media element behind it changes as the
  browser loads it, so a render reads it from \<open>heap\<close>, the current \<^verbatim>\<open>texture.image\<close> of
  every texture.
\<close>

record Vector3Object =
  object_id :: nat
  object_value :: vec3

datatype Listener = OnLoad | OnLoadedMetadata

record MediaPlaneState =
  st_texture :: "nat option"
  st_isReady :: bool
  st_listener :: "Listener option"
  st_memo :: "(nat \<times> nat option \<times> vec3) option"

definition mountedPlane :: MediaPlaneState where
  "mountedPlane = \<lparr>st_texture = None, st_isReady = False, st_listener = None, st_memo = None\<rparr>"

definition readTexture :: "(nat \<Rightarrow> MediaElement option) \<Rightarrow> nat option \<Rightarrow> Texture option" where
  "readTexture heap t = map_option (\<lambda>i. \<lparr>texture_id = i, texture_image = heap i\<rparr>) t"

definition useMemo_displayScale ::
  "Vector3Object \<Rightarrow> (nat \<Rightarrow> MediaElement option) \<Rightarrow> MediaPlaneState
     \<Rightarrow> vec3 \<times> MediaPlaneState" where
  "useMemo_displayScale scl heap p =
     (let recompute = (let v = displayScale (object_value scl) (readTexture heap (st_texture p))
                       in (v, p\<lparr>st_memo := Some (object_id scl, st_texture p, v)\<rparr>))
      in case st_memo p of
           None \<Rightarrow> recompute
         | Some (depScale, depTexture, value) \<Rightarrow>
             if depScale = object_id scl \<and> depTexture = st_texture p then (value, p)
             else recompute)"

text \<open>A render: the scale of the mesh returned, or \<open>None\<close> for \<^verbatim>\<open>return null\<close>.\<close>

definition renderMediaPlane ::
  "Vector3Object \<Rightarrow> (nat \<Rightarrow> MediaElement option) \<Rightarrow> MediaPlaneState
     \<Rightarrow> vec3 option \<times> MediaPlaneState" where
  "renderMediaPlane scl heap p =
     (let (shown, p1) = useMemo_displayScale scl heap p
      in (if st_texture p1 = None \<or> \<not> st_isReady p1 then None else Some shown, p1))"

text \<open>
  The effect on \<^verbatim>\<open>[media]\<close>, given the texture \<^verbatim>\<open>getTexture(media)\<close> returned: it stores
  the texture, and marks the plane ready at once or registers the one-shot listener.
\<close>

definition mediaEffect ::
  "Texture \<Rightarrow> (nat \<Rightarrow> MediaElement option) \<Rightarrow> MediaPlaneState \<Rightarrow> MediaPlaneState" where
  "mediaEffect tex heap p =
     (let p1 = p\<lparr>st_isReady := False, st_texture := Some (texture_id tex)\<rparr>
      in case heap (texture_id tex) of
           Some (HTMLImageElement c nw nh w h) \<Rightarrow>
             if c \<and> nw > 0 \<and> nh > 0 then p1\<lparr>st_isReady := True\<rparr>
             else p1\<lparr>st_listener := Some OnLoad\<rparr>
         | Some (HTMLVideoElement vw vh) \<Rightarrow>
             if vw > 0 \<and> vh > 0 then p1\<lparr>st_isReady := True\<rparr>
             else p1\<lparr>st_listener := Some OnLoadedMetadata\<rparr>
         | Some OtherElement \<Rightarrow> p1
         | None \<Rightarrow> p1\<lparr>st_isReady := True\<rparr>)"

text \<open>The registered listener fires: \<^verbatim>\<open>markReady()\<close>.\<close>

definition listenerFired :: "MediaPlaneState \<Rightarrow> MediaPlaneState" where
  "listenerFired p = p\<lparr>st_isReady := True, st_listener := None\<rparr>"

subsection \<open>Chunk renderer and scene root\<close>

text \<open>
  \<^verbatim>\<open>a % b\<close> on integers: the remainder takes the sign of the dividend, and is NaN
  (\<open>None\<close>) for a zero divisor. Indexing an array with NaN, a negative number or a number
  from its length on yields undefined (\<open>None\<close>); it does not throw.
\<close>

definition jsRemainder :: "int \<Rightarrow> int \<Rightarrow> int option" where
  "jsRemainder a b = (if b = 0 then None else Some (sgn a * (\<bar>a\<bar> mod \<bar>b\<bar>)))"

definition arrayGet :: "'a list \<Rightarrow> int option \<Rightarrow> 'a option" where
  "arrayGet xs i =
     (case i of
        None \<Rightarrow> None
      | Some k \<Rightarrow> if 0 \<le> k \<and> k < int (length xs) then Some (xs ! nat k) else None)"

record MediaPlaneProps =
  mp_key :: string
  mp_position :: vec3
  mp_scale :: vec3
  mp_media :: MediaItem
  mp_visibility :: real

text \<open>One entry per placement: the props of the mounted MediaPlane, or \<open>None\<close> for \<^verbatim>\<open>return null\<close>.\<close>

definition Chunk ::
  "(real \<Rightarrow> real) \<Rightarrow> int \<Rightarrow> int \<Rightarrow> int \<Rightarrow> MediaItem list \<Rightarrow> real \<Rightarrow> MediaPlaneProps option list" where
  "Chunk msin cx cy cz media visibility =
     (let planes = generateChunkPlanes msin cx cy cz (length media)
      in map (\<lambda>plane.
            case arrayGet media (jsRemainder (mediaIndex plane) (int (length media))) of
              None \<Rightarrow> None
            | Some mediaItem \<Rightarrow>
                Some \<lparr>mp_key = plane_id plane, mp_position = position plane,
                      mp_scale = scale plane, mp_media = mediaItem,
                      mp_visibility = visibility\<rparr>) planes)"

record SceneElement =
  canvas_camera :: vec3
  controller_media :: "MediaItem list"

definition InfiniteCanvasScene :: "MediaItem list \<Rightarrow> SceneElement option" where
  "InfiniteCanvasScene media =
     (if length media = 0 then None
      else Some \<lparr>canvas_camera = Vector3 0 0 50, controller_media = media\<rparr>)"


subsection \<open>Camera and input controller: state and event handlers\<close>

text \<open>
  The refs and the state of \<^verbatim>\<open>SceneController\<close>, with the camera position it moves. The
  frame counter behind the FPS readout, \<^verbatim>\<open>lastChunkKey\<close> and the cursor style are written
  but never read by the code modelled here, and are left out. Event handlers and the frame
  callback run one at a time, and the updater a frame passes to \<^verbatim>\<open>setChunks\<close> is applied
  within that frame.
\<close>

record ChunkData =
  chunk_key :: string
  chunk_cx :: int
  chunk_cy :: int
  chunk_cz :: int
  chunk_visibility :: real

record Touch =
  clientX :: real
  clientY :: real

record Controller =
  velocity :: vec3
  targetVel :: vec3
  scrollAccum :: real
  keys :: "string set"
  isDragging :: bool
  lastMouse :: "real \<times> real"
  lastTouches :: "Touch list"
  lastTouchDist :: real
  cameraPosition :: vec3
  chunks :: "ChunkData list"

definition toLowerCase :: "string \<Rightarrow> string" where
  "toLowerCase str =
     map (\<lambda>c. if 65 \<le> (of_char c :: nat) \<and> (of_char c :: nat) \<le> 90
              then char_of ((of_char c :: nat) + 32) else c) str"

definition getTouchDistance :: "Touch list \<Rightarrow> real" where
  "getTouchDistance touches =
     (case touches of
        firstTouch # secondTouch # _ \<Rightarrow>
          (let dx = clientX firstTouch - clientX secondTouch;
               dy = clientY firstTouch - clientY secondTouch
           in sqrt (dx * dx + dy * dy))
      | _ \<Rightarrow> 0)"

definition onKeyDown :: "string \<Rightarrow> Controller \<Rightarrow> Controller" where
  "onKeyDown k s = s\<lparr>keys := insert (toLowerCase k) (keys s)\<rparr>"

definition onKeyUp :: "string \<Rightarrow> Controller \<Rightarrow> Controller" where
  "onKeyUp k s = s\<lparr>keys := keys s - {toLowerCase k}\<rparr>"

definition onMouseDown :: "real \<Rightarrow> real \<Rightarrow> Controller \<Rightarrow> Controller" where
  "onMouseDown ex ey s = s\<lparr>isDragging := True, lastMouse := (ex, ey)\<rparr>"

definition onMouseUp :: "Controller \<Rightarrow> Controller" where
  "onMouseUp s = s\<lparr>isDragging := False\<rparr>"

definition onMouseMove :: "real \<Rightarrow> real \<Rightarrow> Controller \<Rightarrow> Controller" where
  "onMouseMove ex ey s =
     (if \<not> isDragging s then s
      else s\<lparr>targetVel := (targetVel s)
                 \<lparr>vec_x := vec_x (targetVel s) - (ex - fst (lastMouse s)) * 0.012,
                  vec_y := vec_y (targetVel s) + (ey - snd (lastMouse s)) * 0.012\<rparr>,
              lastMouse := (ex, ey)\<rparr>)"

definition onWheel :: "real \<Rightarrow> Controller \<Rightarrow> Controller" where
  "onWheel deltaY s = s\<lparr>scrollAccum := scrollAccum s + deltaY * 0.006\<rparr>"

definition onTouchStart :: "Touch list \<Rightarrow> Controller \<Rightarrow> Controller" where
  "onTouchStart touches s =
     s\<lparr>lastTouches := touches, lastTouchDist := getTouchDistance touches\<rparr>"

definition onTouchMove :: "Touch list \<Rightarrow> Controller \<Rightarrow> Controller" where
  "onTouchMove touches s =
     (if length touches = 1 \<and> length (lastTouches s) \<ge> 1 then
        (case (touches, lastTouches s) of
           (touch # _, lastTouch # _) \<Rightarrow>
             s\<lparr>targetVel := (targetVel s)
                  \<lparr>vec_x := vec_x (targetVel s) - (clientX touch - clientX lastTouch) * 0.02,
                   vec_y := vec_y (targetVel s) + (clientY touch - clientY lastTouch) * 0.02\<rparr>,
               lastTouches := touches\<rparr>
         | _ \<Rightarrow> s\<lparr>lastTouches := touches\<rparr>)
      else
        (let s1 = (if length touches = 2 then
                     (let dist = getTouchDistance touches;
                          s' = (if lastTouchDist s > 0
                                then s\<lparr>scrollAccum :=
                                         scrollAccum s + (lastTouchDist s - dist) * 0.006\<rparr>
                                else s)
                      in s'\<lparr>lastTouchDist := dist\<rparr>)
                   else s)
         in s1\<lparr>lastTouches := touches\<rparr>))"

definition onTouchEnd :: "Touch list \<Rightarrow> Controller \<Rightarrow> Controller" where
  "onTouchEnd touches s =
     s\<lparr>lastTouches := touches, lastTouchDist := getTouchDistance touches\<rparr>"

datatype Event =
    KeyDown string
  | KeyUp string
  | MouseDown real real
  | MouseUp
  | MouseMove real real
  | Wheel real
  | TouchStart "Touch list"
  | TouchMove "Touch list"
  | TouchEnd "Touch list"

fun dispatch :: "Event \<Rightarrow> Controller \<Rightarrow> Controller" where
  "dispatch (KeyDown k) s = onKeyDown k s"
| "dispatch (KeyUp k) s = onKeyUp k s"
| "dispatch (MouseDown ex ey) s = onMouseDown ex ey s"
| "dispatch MouseUp s = onMouseUp s"
| "dispatch (MouseMove ex ey) s = onMouseMove ex ey s"
| "dispatch (Wheel deltaY) s = onWheel deltaY s"
| "dispatch (TouchStart ts) s = onTouchStart ts s"
| "dispatch (TouchMove ts) s = onTouchMove ts s"
| "dispatch (TouchEnd ts) s = onTouchEnd ts s"

subsection \<open>The frame callback: integration\<close>

text \<open>Lines 467 to 515 of the frame callback, statement by statement.\<close>

definition integrate :: "Controller \<Rightarrow> Controller" where
  "integrate s0 =
     (let k = keys s0;
          speed = 0.18;
          s1 = (if ''w'' \<in> k \<or> ''arrowup'' \<in> k
                then targetVel_update (vec_z_update (\<lambda>v. v - speed)) s0 else s0);
          s2 = (if ''s'' \<in> k \<or> ''arrowdown'' \<in> k
                then targetVel_update (vec_z_update (\<lambda>v. v + speed)) s1 else s1);
          s3 = (if ''a'' \<in> k \<or> ''arrowleft'' \<in> k
                then targetVel_update (vec_x_update (\<lambda>v. v - speed)) s2 else s2);
          s4 = (if ''d'' \<in> k \<or> ''arrowright'' \<in> k
                then targetVel_update (vec_x_update (\<lambda>v. v + speed)) s3 else s3);
          s5 = (if ''q'' \<in> k
                then targetVel_update (vec_y_update (\<lambda>v. v - speed)) s4 else s4);
          s6 = (if ''e'' \<in> k
                then targetVel_update (vec_y_update (\<lambda>v. v + speed)) s5 else s5);
          s7 = (if '' '' \<in> k
                then targetVel_update (vec_z_update (\<lambda>v. v - speed * 1.5)) s6 else s6);
          s8 = targetVel_update (vec_z_update (\<lambda>v. v + scrollAccum s7)) s7;
          s9 = scrollAccum_update (\<lambda>a. a * 0.8) s8;
          s10 = targetVel_update (vec_x_update (\<lambda>v. clamp v (- MAX_VELOCITY) MAX_VELOCITY)) s9;
          s11 = targetVel_update (vec_y_update (\<lambda>v. clamp v (- MAX_VELOCITY) MAX_VELOCITY)) s10;
          s12 = targetVel_update (vec_z_update (\<lambda>v. clamp v (- MAX_VELOCITY) MAX_VELOCITY)) s11;
          s13 = velocity_update (vec_x_update (\<lambda>v. lerp v (vec_x (targetVel s12)) 0.16)) s12;
          s14 = velocity_update (vec_y_update (\<lambda>v. lerp v (vec_y (targetVel s13)) 0.16)) s13;
          s15 = velocity_update (vec_z_update (\<lambda>v. lerp v (vec_z (targetVel s14)) 0.16)) s14;
          s16 = cameraPosition_update (vec_x_update (\<lambda>p. p + vec_x (velocity s15))) s15;
          s17 = cameraPosition_update (vec_y_update (\<lambda>p. p + vec_y (velocity s16))) s16;
          s18 = cameraPosition_update (vec_z_update (\<lambda>p. p + vec_z (velocity s17))) s17;
          s19 = targetVel_update (vec_x_update (\<lambda>v. v * 0.9)) s18;
          s20 = targetVel_update (vec_y_update (\<lambda>v. v * 0.9)) s19;
          s21 = targetVel_update (vec_z_update (\<lambda>v. v * 0.9)) s20
      in s21)"

subsection \<open>Binary64 arithmetic\<close>

text \<open>
  A JavaScript number is an IEEE 754 binary64 value, and every arithmetic operation and
  every decimal literal yields the exact result rounded to the nearest such value, a tie
  going to the one with an even last bit. \<open>binary64 x\<close> is that rounding of a real \<open>x\<close>:
  53 significant bits, and the fixed spacing \<open>2\<^sup>-\<^sup>1\<^sup>0\<^sup>7\<^sup>4\<close> below \<open>2\<^sup>-\<^sup>1\<^sup>0\<^sup>2\<^sup>2\<close>. Numbers are
  taken finite: overflow to Infinity, from \<open>2\<^sup>1\<^sup>0\<^sup>2\<^sup>4\<close> on, and NaN are outside the model.
\<close>

definition roundHalfEven :: "real \<Rightarrow> int" where
  "roundHalfEven y =
     (let f = \<lfloor>y\<rfloor>; r = y - of_int f
      in if r < 1 / 2 then f else if 1 / 2 < r then f + 1 else if even f then f else f + 1)"

definition binade :: "real \<Rightarrow> int" where
  "binade x = max \<lfloor>log 2 \<bar>x\<bar>\<rfloor> (- 1022)"

definition quantum :: "real \<Rightarrow> real" where
  "quantum x = 2 powr (of_int (binade x) - 52)"

definition binary64 :: "real \<Rightarrow> real" where
  "binary64 x = (if x = 0 then 0 else of_int (roundHalfEven (x / quantum x)) * quantum x)"

subsection \<open>The frame callback: integration in binary64\<close>

text \<open>
  Lines 467 to 515 again, statement by statement, with the arithmetic the engine performs:
  every literal and every sum, difference and product rounded. \<^verbatim>\<open>Math.max\<close> and
  \<^verbatim>\<open>Math.min\<close> return one of their arguments and the negation of a number is exact, so
  \<open>clamp\<close> needs no rounding.
\<close>

definition MAX_VELOCITY64 :: real where
  "MAX_VELOCITY64 = binary64 3.2"

definition lerp64 :: "real \<Rightarrow> real \<Rightarrow> real \<Rightarrow> real" where
  "lerp64 a b t = binary64 (a + binary64 (binary64 (b - a) * t))"

definition integrate64 :: "Controller \<Rightarrow> Controller" where
  "integrate64 s0 =
     (let k = keys s0;
          speed = binary64 0.18;
          s1 = (if ''w'' \<in> k \<or> ''arrowup'' \<in> k
                then targetVel_update (vec_z_update (\<lambda>v. binary64 (v - speed))) s0 else s0);
          s2 = (if ''s'' \<in> k \<or> ''arrowdown'' \<in> k
                then targetVel_update (vec_z_update (\<lambda>v. binary64 (v + speed))) s1 else s1);
          s3 = (if ''a'' \<in> k \<or> ''arrowleft'' \<in> k
                then targetVel_update (vec_x_update (\<lambda>v. binary64 (v - speed))) s2 else s2);
          s4 = (if ''d'' \<in> k \<or> ''arrowright'' \<in> k
                then targetVel_update (vec_x_update (\<lambda>v. binary64 (v + speed))) s3 else s3);
          s5 = (if ''q'' \<in> k
                then targetVel_update (vec_y_update (\<lambda>v. binary64 (v - speed))) s4 else s4);
          s6 = (if ''e'' \<in> k
                then targetVel_update (vec_y_update (\<lambda>v. binary64 (v + speed))) s5 else s5);
          s7 = (if '' '' \<in> k
                then targetVel_update
                       (vec_z_update (\<lambda>v. binary64 (v - binary64 (speed * binary64 1.5)))) s6
                else s6);
          s8 = targetVel_update (vec_z_update (\<lambda>v. binary64 (v + scrollAccum s7))) s7;
          s9 = scrollAccum_update (\<lambda>a. binary64 (a * binary64 0.8)) s8;
          s10 = targetVel_update
                  (vec_x_update (\<lambda>v. clamp v (- MAX_VELOCITY64) MAX_VELOCITY64)) s9;
          s11 = targetVel_update
                  (vec_y_update (\<lambda>v. clamp v (- MAX_VELOCITY64) MAX_VELOCITY64)) s10;
          s12 = targetVel_update
                  (vec_z_update (\<lambda>v. clamp v (- MAX_VELOCITY64) MAX_VELOCITY64)) s11;
          s13 = velocity_update
                  (vec_x_update (\<lambda>v. lerp64 v (vec_x (targetVel s12)) (binary64 0.16))) s12;
          s14 = velocity_update
                  (vec_y_update (\<lambda>v. lerp64 v (vec_y (targetVel s13)) (binary64 0.16))) s13;
          s15 = velocity_update
                  (vec_z_update (\<lambda>v. lerp64 v (vec_z (targetVel s14)) (binary64 0.16))) s14;
          s16 = cameraPosition_update
                  (vec_x_update (\<lambda>p. binary64 (p + vec_x (velocity s15)))) s15;
          s17 = cameraPosition_update
                  (vec_y_update (\<lambda>p. binary64 (p + vec_y (velocity s16)))) s16;
          s18 = cameraPosition_update
                  (vec_z_update (\<lambda>p. binary64 (p + vec_z (velocity s17)))) s17;
          s19 = targetVel_update (vec_x_update (\<lambda>v. binary64 (v * binary64 0.9))) s18;
          s20 = targetVel_update (vec_y_update (\<lambda>v. binary64 (v * binary64 0.9))) s19;
          s21 = targetVel_update (vec_z_update (\<lambda>v. binary64 (v * binary64 0.9))) s20
      in s21)"

text \<open>
  The event handlers that compute, with the same rounding, and a run in binary64: input
  events and frames in any order, from the mounted state. \<^verbatim>\<open>Math.sqrt\<close> returns the
  rounded square root. The chunk list plays no part in the motion and is left as it is.
\<close>

definition getTouchDistance64 :: "Touch list \<Rightarrow> real" where
  "getTouchDistance64 touches =
     (case touches of
        firstTouch # secondTouch # _ \<Rightarrow>
          (let dx = binary64 (clientX firstTouch - clientX secondTouch);
               dy = binary64 (clientY firstTouch - clientY secondTouch)
           in binary64 (sqrt (binary64 (binary64 (dx * dx) + binary64 (dy * dy)))))
      | _ \<Rightarrow> 0)"

definition onMouseMove64 :: "real \<Rightarrow> real \<Rightarrow> Controller \<Rightarrow> Controller" where
  "onMouseMove64 ex ey s =
     (if \<not> isDragging s then s
      else s\<lparr>targetVel := (targetVel s)
                 \<lparr>vec_x := binary64 (vec_x (targetVel s)
                             - binary64 (binary64 (ex - fst (lastMouse s)) * binary64 0.012)),
                  vec_y := binary64 (vec_y (targetVel s)
                             + binary64 (binary64 (ey - snd (lastMouse s)) * binary64 0.012))\<rparr>,
              lastMouse := (ex, ey)\<rparr>)"

definition onWheel64 :: "real \<Rightarrow> Controller \<Rightarrow> Controller" where
  "onWheel64 deltaY s =
     s\<lparr>scrollAccum := binary64 (scrollAccum s + binary64 (deltaY * binary64 0.006))\<rparr>"

definition onTouchStart64 :: "Touch list \<Rightarrow> Controller \<Rightarrow> Controller" where
  "onTouchStart64 touches s =
     s\<lparr>lastTouches := touches, lastTouchDist := getTouchDistance64 touches\<rparr>"

definition onTouchMove64 :: "Touch list \<Rightarrow> Controller \<Rightarrow> Controller" where
  "onTouchMove64 touches s =
     (if length touches = 1 \<and> length (lastTouches s) \<ge> 1 then
        (case (touches, lastTouches s) of
           (touch # _, lastTouch # _) \<Rightarrow>
             s\<lparr>targetVel := (targetVel s)
                  \<lparr>vec_x := binary64 (vec_x (targetVel s)
                              - binary64 (binary64 (clientX touch - clientX lastTouch)
                                            * binary64 0.02)),
                   vec_y := binary64 (vec_y (targetVel s)
                              + binary64 (binary64 (clientY touch - clientY lastTouch)
                                            * binary64 0.02))\<rparr>,
               lastTouches := touches\<rparr>
         | _ \<Rightarrow> s\<lparr>lastTouches := touches\<rparr>)
      else
        (let s1 = (if length touches = 2 then
                     (let dist = getTouchDistance64 touches;
                          s' = (if lastTouchDist s > 0
                                then s\<lparr>scrollAccum :=
                                         binary64 (scrollAccum s
                                           + binary64 (binary64 (lastTouchDist s - dist)
                                                         * binary64 0.006))\<rparr>
                                else s)
                      in s'\<lparr>lastTouchDist := dist\<rparr>)
                   else s)
         in s1\<lparr>lastTouches := touches\<rparr>))"

definition onTouchEnd64 :: "Touch list \<Rightarrow> Controller \<Rightarrow> Controller" where
  "onTouchEnd64 touches s =
     s\<lparr>lastTouches := touches, lastTouchDist := getTouchDistance64 touches\<rparr>"

fun dispatch64 :: "Event \<Rightarrow> Controller \<Rightarrow> Controller" where
  "dispatch64 (KeyDown k) s = onKeyDown k s"
| "dispatch64 (KeyUp k) s = onKeyUp k s"
| "dispatch64 (MouseDown ex ey) s = onMouseDown ex ey s"
| "dispatch64 MouseUp s = onMouseUp s"
| "dispatch64 (MouseMove ex ey) s = onMouseMove64 ex ey s"
| "dispatch64 (Wheel deltaY) s = onWheel64 deltaY s"
| "dispatch64 (TouchStart ts) s = onTouchStart64 ts s"
| "dispatch64 (TouchMove ts) s = onTouchMove64 ts s"
| "dispatch64 (TouchEnd ts) s = onTouchEnd64 ts s"


subsection \<open>The frame callback: chunk visibility\<close>

record offset =
  off_dx :: int
  off_dy :: int
  off_dz :: int
  off_dist :: int

definition CHUNK_OFFSETS :: "offset list" where
  "CHUNK_OFFSETS =
     concat (map (\<lambda>dx. concat (map (\<lambda>dy. concat (map (\<lambda>dz.
       (let dist = max (max \<bar>dx\<bar> \<bar>dy\<bar>) \<bar>dz\<bar>
        in if dist > MAX_DIST then []
           else [\<lparr>off_dx = dx, off_dy = dy, off_dz = dz, off_dist = dist\<rparr>]))
       [- MAX_DIST..MAX_DIST])) [- MAX_DIST..MAX_DIST])) [- MAX_DIST..MAX_DIST])"

definition gridTarget :: "int \<Rightarrow> real" where
  "gridTarget distance =
     (if distance \<le> RENDER_DISTANCE then 1
      else max 0 (1 - (of_int distance - of_int RENDER_DISTANCE) / max (of_int CHUNK_FADE_MARGIN) 0.0001))"

definition depthTarget :: "real \<Rightarrow> real" where
  "depthTarget absDepth =
     (let depthLinear =
            (if absDepth \<le> DEPTH_FADE_START then 1
             else max 0 (1 - (absDepth - DEPTH_FADE_START)
                              / max (DEPTH_FADE_END - DEPTH_FADE_START) 0.0001))
      in depthLinear * depthLinear)"

text \<open>
  The target visibility of the chunk at the given offset from the camera's chunk, whose
  z coordinate is \<open>cz\<close>, for a camera at depth \<open>camZ\<close>.
\<close>

definition targetVisibility :: "int \<Rightarrow> int \<Rightarrow> int \<Rightarrow> real \<Rightarrow> real" where
  "targetVisibility distance dz cz camZ =
     (let chunkCenterZ = (of_int cz + of_int dz + 0.5) * CHUNK_SIZE;
          absDepth = \<bar>chunkCenterZ - camZ\<bar>
      in min (gridTarget distance) (depthTarget absDepth))"

definition buildPrevMap :: "ChunkData list \<Rightarrow> (string \<rightharpoonup> ChunkData)" where
  "buildPrevMap prev = fold (\<lambda>c m. m(chunk_key c \<mapsto> c)) prev Map.empty"

text \<open>One round of the loop over the offsets: the chunk pushed, or \<open>None\<close> for \<^verbatim>\<open>continue\<close>.\<close>

definition nextChunk ::
  "(string \<rightharpoonup> ChunkData) \<Rightarrow> int \<Rightarrow> int \<Rightarrow> int \<Rightarrow> real \<Rightarrow> offset \<Rightarrow> ChunkData option" where
  "nextChunk prevMap cx cy cz camZ off =
     (let target = targetVisibility (off_dist off) (off_dz off) cz camZ;
          keyChunk = chunkKey (cx + off_dx off) (cy + off_dy off) (cz + off_dz off);
          prevChunk = prevMap keyChunk;
          currentVisibility = (case prevChunk of None \<Rightarrow> 0 | Some c \<Rightarrow> chunk_visibility c);
          visibility = lerp currentVisibility target VISIBILITY_LERP
      in if visibility < 0.01 \<and> target = 0 then None
         else Some \<lparr>chunk_key = keyChunk, chunk_cx = cx + off_dx off,
                    chunk_cy = cy + off_dy off, chunk_cz = cz + off_dz off,
                    chunk_visibility = visibility\<rparr>)"

fun offsetLoop ::
  "(string \<rightharpoonup> ChunkData) \<Rightarrow> int \<Rightarrow> int \<Rightarrow> int \<Rightarrow> real \<Rightarrow> offset list \<Rightarrow> ChunkData list" where
  "offsetLoop prevMap cx cy cz camZ [] = []"
| "offsetLoop prevMap cx cy cz camZ (off # rest) =
     (case nextChunk prevMap cx cy cz camZ off of
        None \<Rightarrow> offsetLoop prevMap cx cy cz camZ rest
      | Some c \<Rightarrow> c # offsetLoop prevMap cx cy cz camZ rest)"

definition setChunks :: "int \<Rightarrow> int \<Rightarrow> int \<Rightarrow> real \<Rightarrow> ChunkData list \<Rightarrow> ChunkData list" where
  "setChunks cx cy cz camZ prev =
     (let prevMap = buildPrevMap prev
      in offsetLoop prevMap cx cy cz camZ CHUNK_OFFSETS)"

definition cameraChunk :: "real \<Rightarrow> int" where
  "cameraChunk p = \<lfloor>p / CHUNK_SIZE\<rfloor>"

definition useFrame :: "Controller \<Rightarrow> Controller" where
  "useFrame s =
     (let s1 = integrate s;
          cx = cameraChunk (vec_x (cameraPosition s1));
          cy = cameraChunk (vec_y (cameraPosition s1));
          cz = cameraChunk (vec_z (cameraPosition s1))
      in s1\<lparr>chunks := setChunks cx cy cz (vec_z (cameraPosition s1)) (chunks s1)\<rparr>)"

definition initialChunks :: "ChunkData list" where
  "initialChunks =
     map (\<lambda>off.
        (let easedVisibility = targetVisibility (off_dist off) (off_dz off) 0 0
         in \<lparr>chunk_key = chunkKey (off_dx off) (off_dy off) (off_dz off),
             chunk_cx = off_dx off, chunk_cy = off_dy off, chunk_cz = off_dz off,
             chunk_visibility = easedVisibility\<rparr>)) CHUNK_OFFSETS"

text \<open>
  The controller once mounted: refs at their initial values, the camera where the canvas
  puts it, and the chunk list the mount effect sets.
\<close>

definition initialController :: Controller where
  "initialController =
     \<lparr>velocity = Vector3 0 0 0, targetVel = Vector3 0 0 0, scrollAccum = 0, keys = {},
      isDragging = False, lastMouse = (0, 0), lastTouches = [], lastTouchDist = 0,
      cameraPosition = Vector3 0 0 50, chunks = initialChunks\<rparr>"

text \<open>A run of the program: input events and frames in any order, from the mounted state.\<close>

datatype Step = Input Event | Frame

fun step :: "Step \<Rightarrow> Controller \<Rightarrow> Controller" where
  "step (Input e) s = dispatch e s"
| "step Frame s = useFrame s"

definition run :: "Step list \<Rightarrow> Controller" where
  "run steps = fold step steps initialController"

fun step64 :: "Step \<Rightarrow> Controller \<Rightarrow> Controller" where
  "step64 (Input e) s = dispatch64 e s"
| "step64 Frame s = integrate64 s"

definition run64 :: "Step list \<Rightarrow> Controller" where
  "run64 steps = fold step64 steps initialController"

subsection \<open>Invariants used in the proofs\<close>

text \<open>
  Every url with a video element has a texture, and every cached url accounts for exactly
  one load.
\<close>

definition cacheInv :: "CacheState \<Rightarrow> bool" where
  "cacheInv s \<longleftrightarrow>
     dom (videoElements s) \<subseteq> dom (textureCache s) \<and>
     (\<forall>u. count_list (imageLoads s) u + count_list (videosCreated s) u
            = (if u \<in> dom (textureCache s) then 1 else 0))"

subsection \<open>The integration order as the specification words it\<close>

text \<open>
  Six stages, each written from the specification's sentence for it, in plain arithmetic,
  to be compared with \<open>integrate\<close>, which follows the source. Forward is the negative z
  direction, right is positive x, up is positive y.

  Stage 1 takes the set of keys it counts as held. The specification binds eleven keys and
  gives each a fixed increment: 0.18 on its axis, and 1.5 times that, forward, for Space.
  The increments of the keys held are added up.
\<close>

definition boundKeys :: "string list" where
  "boundKeys =
     [''w'', ''arrowup'', ''s'', ''arrowdown'', ''a'', ''arrowleft'', ''d'', ''arrowright'',
      ''q'', ''e'', '' '']"

definition keyNudge :: "string \<Rightarrow> vec3" where
  "keyNudge key =
     (if key = ''w'' \<or> key = ''arrowup'' then Vector3 0 0 (- 0.18)
      else if key = ''s'' \<or> key = ''arrowdown'' then Vector3 0 0 0.18
      else if key = ''a'' \<or> key = ''arrowleft'' then Vector3 (- 0.18) 0 0
      else if key = ''d'' \<or> key = ''arrowright'' then Vector3 0.18 0 0
      else if key = ''q'' then Vector3 0 (- 0.18) 0
      else if key = ''e'' then Vector3 0 0.18 0
      else if key = '' '' then Vector3 0 0 (- (1.5 * 0.18))
      else Vector3 0 0 0)"

definition keyIncrement :: "string set \<Rightarrow> vec3" where
  "keyIncrement held =
     Vector3 (\<Sum>key\<leftarrow>boundKeys. if key \<in> held then vec_x (keyNudge key) else 0)
             (\<Sum>key\<leftarrow>boundKeys. if key \<in> held then vec_y (keyNudge key) else 0)
             (\<Sum>key\<leftarrow>boundKeys. if key \<in> held then vec_z (keyNudge key) else 0)"

text \<open>
  The keys held, with the arrow key of a direction left out when the letter key of the same
  direction is held too: each direction is then counted once.
\<close>

definition oncePerDirection :: "string set \<Rightarrow> string set" where
  "oncePerDirection held =
     held - ((if ''w'' \<in> held then {''arrowup''} else {})
           \<union> (if ''s'' \<in> held then {''arrowdown''} else {})
           \<union> (if ''a'' \<in> held then {''arrowleft''} else {})
           \<union> (if ''d'' \<in> held then {''arrowright''} else {}))"

definition stage1_keys :: "string set \<Rightarrow> Controller \<Rightarrow> Controller" where
  "stage1_keys held s =
     s\<lparr>targetVel := Vector3 (vec_x (targetVel s) + vec_x (keyIncrement held))
                           (vec_y (targetVel s) + vec_y (keyIncrement held))
                           (vec_z (targetVel s) + vec_z (keyIncrement held))\<rparr>"

definition stage2_scroll :: "Controller \<Rightarrow> Controller" where
  "stage2_scroll s =
     s\<lparr>targetVel := Vector3 (vec_x (targetVel s)) (vec_y (targetVel s))
                           (vec_z (targetVel s) + scrollAccum s),
       scrollAccum := 0.8 * scrollAccum s\<rparr>"

text \<open>The nearest point of the interval from -3.2 to 3.2.\<close>

definition intoRange :: "real \<Rightarrow> real" where
  "intoRange v = (if v < - 3.2 then - 3.2 else if 3.2 < v then 3.2 else v)"

definition stage3_clamp :: "Controller \<Rightarrow> Controller" where
  "stage3_clamp s =
     s\<lparr>targetVel := Vector3 (intoRange (vec_x (targetVel s))) (intoRange (vec_y (targetVel s)))
                           (intoRange (vec_z (targetVel s)))\<rparr>"

text \<open>A step of 0.16 of the way from the velocity to the target.\<close>

definition toward :: "real \<Rightarrow> real \<Rightarrow> real" where
  "toward v target = v + 0.16 * (target - v)"

definition stage4_ease :: "Controller \<Rightarrow> Controller" where
  "stage4_ease s =
     s\<lparr>velocity := Vector3 (toward (vec_x (velocity s)) (vec_x (targetVel s)))
                          (toward (vec_y (velocity s)) (vec_y (targetVel s)))
                          (toward (vec_z (velocity s)) (vec_z (targetVel s)))\<rparr>"

definition stage5_move :: "Controller \<Rightarrow> Controller" where
  "stage5_move s =
     s\<lparr>cameraPosition := Vector3 (vec_x (cameraPosition s) + vec_x (velocity s))
                                (vec_y (cameraPosition s) + vec_y (velocity s))
                                (vec_z (cameraPosition s) + vec_z (velocity s))\<rparr>"

definition stage6_decay :: "Controller \<Rightarrow> Controller" where
  "stage6_decay s =
     s\<lparr>targetVel := Vector3 (0.9 * vec_x (targetVel s)) (0.9 * vec_y (targetVel s))
                           (0.9 * vec_z (targetVel s))\<rparr>"

definition frameAsSpecified :: "string set \<Rightarrow> Controller \<Rightarrow> Controller" where
  "frameAsSpecified held s =
     stage6_decay (stage5_move (stage4_ease (stage3_clamp (stage2_scroll (stage1_keys held s)))))"

text \<open>The number a string of decimal digits denotes: a left inverse of \<open>natToString\<close>.\<close>

definition digitsValue :: "string \<Rightarrow> nat" where
  "digitsValue str = foldl (\<lambda>a c. 10 * a + (of_char c - 48)) 0 str"

text \<open>The entries of \<open>CHUNK_OFFSETS\<close>, by their three components.\<close>

definition chebyshev :: "int \<Rightarrow> int \<Rightarrow> int \<Rightarrow> int" where
  "chebyshev a b c = max (max \<bar>a\<bar> \<bar>b\<bar>) \<bar>c\<bar>"

definition mkOffset :: "int \<Rightarrow> int \<Rightarrow> int \<Rightarrow> offset" where
  "mkOffset a b c = \<lparr>off_dx = a, off_dy = b, off_dz = c, off_dist = chebyshev a b c\<rparr>"

text \<open>
  The target visibility the frame's formula gives a chunk, seen from a camera position:
  the offset is the chunk's coordinate minus the camera's chunk, the distance is the
  Chebyshev distance of the offset. For an offset inside the cube this is the value the
  loop computes; outside the cube the grid target of the formula is 0.
\<close>

definition chunkTarget :: "vec3 \<Rightarrow> ChunkData \<Rightarrow> real" where
  "chunkTarget cam c =
     (let dx = chunk_cx c - cameraChunk (vec_x cam);
          dy = chunk_cy c - cameraChunk (vec_y cam);
          dz = chunk_cz c - cameraChunk (vec_z cam)
      in targetVisibility (chebyshev dx dy dz) dz (cameraChunk (vec_z cam)) (vec_z cam))"

text \<open>
  What the chunk list keeps true along a run. On each axis a chunk lies within three
  chunks of the camera's chunk; a chunk exactly three away has been fading since the
  camera crossed the boundary that put it there, so its visibility is at most
  \<open>0.82 ^ n\<close> for an \<open>n\<close> that covers the distance of the camera from that boundary at
  3.2 per frame.
\<close>

definition fadeBound :: "real \<Rightarrow> int \<Rightarrow> real \<Rightarrow> bool" where
  "fadeBound p i v \<longleftrightarrow>
     \<bar>i - cameraChunk p\<bar> \<le> 3 \<and>
     (i - cameraChunk p = 3 \<longrightarrow>
        (\<exists>n. (of_int (cameraChunk p) + 1) * CHUNK_SIZE - p \<le> 3.2 * real n \<and> v \<le> 0.82 ^ n)) \<and>
     (i - cameraChunk p = - 3 \<longrightarrow>
        (\<exists>n. p - of_int (cameraChunk p) * CHUNK_SIZE \<le> 3.2 * real n \<and> v \<le> 0.82 ^ n))"

definition chunkInv :: "vec3 \<Rightarrow> ChunkData \<Rightarrow> bool" where
  "chunkInv cam c \<longleftrightarrow>
     chunk_key c = chunkKey (chunk_cx c) (chunk_cy c) (chunk_cz c) \<and>
     0 \<le> chunk_visibility c \<and> chunk_visibility c \<le> 1 \<and>
     fadeBound (vec_x cam) (chunk_cx c) (chunk_visibility c) \<and>
     fadeBound (vec_y cam) (chunk_cy c) (chunk_visibility c) \<and>
     fadeBound (vec_z cam) (chunk_cz c) (chunk_visibility c)"

definition chunksInv :: "vec3 \<Rightarrow> ChunkData list \<Rightarrow> bool" where
  "chunksInv cam cs \<longleftrightarrow> distinct (map chunk_key cs) \<and> (\<forall>c \<in> set cs. chunkInv cam c)"

text \<open>
  What the seven conditionals at the head of the frame callback add to the target velocity
  in total, and the target velocity of a frame after keys, scroll and clamp, before the
  decay.
\<close>

definition heldIncrement :: "string set \<Rightarrow> vec3" where
  "heldIncrement k =
     Vector3
       ((if ''d'' \<in> k \<or> ''arrowright'' \<in> k then 0.18 else 0)
          - (if ''a'' \<in> k \<or> ''arrowleft'' \<in> k then 0.18 else 0))
       ((if ''e'' \<in> k then 0.18 else 0) - (if ''q'' \<in> k then 0.18 else 0))
       ((if ''s'' \<in> k \<or> ''arrowdown'' \<in> k then 0.18 else 0)
          - (if ''w'' \<in> k \<or> ''arrowup'' \<in> k then 0.18 else 0)
          - (if '' '' \<in> k then 1.5 * 0.18 else 0))"


definition clampedTarget :: "Controller \<Rightarrow> vec3" where
  "clampedTarget s =
     Vector3 (clamp (vec_x (targetVel s) + vec_x (heldIncrement (keys s))) (- 3.2) 3.2)
             (clamp (vec_y (targetVel s) + vec_y (heldIncrement (keys s))) (- 3.2) 3.2)
             (clamp (vec_z (targetVel s) + vec_z (heldIncrement (keys s)) + scrollAccum s) (- 3.2) 3.2)"

text \<open>The target velocity of a binary64 frame after keys and scroll, before the clamp.\<close>

definition heldTarget64 :: "Controller \<Rightarrow> vec3" where
  "heldTarget64 s =
     (let k = keys s; speed = binary64 0.18;
          x1 = (if ''a'' \<in> k \<or> ''arrowleft'' \<in> k
                then binary64 (vec_x (targetVel s) - speed) else vec_x (targetVel s));
          x2 = (if ''d'' \<in> k \<or> ''arrowright'' \<in> k then binary64 (x1 + speed) else x1);
          y1 = (if ''q'' \<in> k then binary64 (vec_y (targetVel s) - speed) else vec_y (targetVel s));
          y2 = (if ''e'' \<in> k then binary64 (y1 + speed) else y1);
          z1 = (if ''w'' \<in> k \<or> ''arrowup'' \<in> k
                then binary64 (vec_z (targetVel s) - speed) else vec_z (targetVel s));
          z2 = (if ''s'' \<in> k \<or> ''arrowdown'' \<in> k then binary64 (z1 + speed) else z1);
          z3 = (if '' '' \<in> k then binary64 (z2 - binary64 (speed * binary64 1.5)) else z2)
      in Vector3 x2 y2 (binary64 (z3 + scrollAccum s)))"


subsection \<open>Concrete inputs\<close>

text \<open>Two contacts 10 apart, then 5 apart: a pinch-in.\<close>

definition pinchStart :: "Touch list" where
  "pinchStart = [\<lparr>clientX = 0, clientY = 0\<rparr>, \<lparr>clientX = 10, clientY = 0\<rparr>]"

definition pinchCloser :: "Touch list" where
  "pinchCloser = [\<lparr>clientX = 0, clientY = 0\<rparr>, \<lparr>clientX = 5, clientY = 0\<rparr>]"

text \<open>
  A video item requested for the first time, the texture the cache returns for it, the
  texture heap before and after the browser has read the video's metadata, the scale
  object of its placement (the chunk keeps its placements, so every render of the plane
  receives this one object), and the state of a media plane for it once its listener has
  fired.
\<close>

definition clip :: MediaItem where
  "clip = \<lparr>url = ''clip.mp4'', type = video\<rparr>"

definition clipTexture :: Texture where
  "clipTexture = fst (getTexture clip emptyCache)"

definition heapBefore :: "nat \<Rightarrow> MediaElement option" where
  "heapBefore = (\<lambda>i. None)(texture_id clipTexture := texture_image clipTexture)"

definition heapLoaded :: "nat \<Rightarrow> MediaElement option" where
  "heapLoaded = heapBefore(texture_id clipTexture := Some (HTMLVideoElement 1920 1080))"

definition planeScale :: Vector3Object where
  "planeScale = \<lparr>object_id = 0, object_value = Vector3 16 16 1\<rparr>"

definition planeAfterLoad :: "Vector3Object \<Rightarrow> MediaPlaneState" where
  "planeAfterLoad scl =
     (let p1 = snd (renderMediaPlane scl heapBefore mountedPlane);
          p2 = mediaEffect clipTexture heapBefore p1;
          p3 = snd (renderMediaPlane scl heapBefore p2)
      in listenerFired p3)"

text \<open>
  Two chunks of the initial list: the one a step ahead of the origin in z, at its initial
  visibility; and one three chunks off in x, on the edge of the cube. And the first of them
  after the first frame of a run with no input.
\<close>

definition initialAhead :: ChunkData where
  "initialAhead =
     \<lparr>chunk_key = chunkKey 0 0 1, chunk_cx = 0, chunk_cy = 0, chunk_cz = 1,
      chunk_visibility = targetVisibility 1 1 0 0\<rparr>"

definition initialEdge :: ChunkData where
  "initialEdge =
     \<lparr>chunk_key = chunkKey 3 0 0, chunk_cx = 3, chunk_cy = 0, chunk_cz = 0,
      chunk_visibility = targetVisibility 3 0 0 0\<rparr>"

definition aheadAfterFrame :: ChunkData where
  "aheadAfterFrame =
     \<lparr>chunk_key = chunkKey 0 0 1, chunk_cx = 0, chunk_cy = 0, chunk_cz = 1,
      chunk_visibility = lerp (targetVisibility 1 1 0 0) 1 VISIBILITY_LERP\<rparr>"


text \<open>
  A state with W and Space held: the target at its bound, the velocity a little short of
  3.2, the camera some 544 units down the z axis.
\<close>

definition heldForward :: Controller where
  "heldForward =
     initialController
       \<lparr>keys := {''w'', '' ''},
        targetVel := Vector3 0 0 (- (6485183463413515 / 2 ^ 51)),
        velocity := Vector3 0 0 (- (7205759403792764 / 2 ^ 51)),
        cameraPosition := Vector3 0 0 (- (4782517836172213 / 2 ^ 43))\<rparr>"

section \<open>Placement generation\<close>

lemma seededRandom_range: "0 \<le> seededRandom msin s \<and> seededRandom msin s < 1"
  unfolding seededRandom_def Let_def by linarith

lemma length_generateChunkPlanes:
  "length (generateChunkPlanes msin cx cy cz n) = ITEMS_PER_CHUNK"
  by (simp add: generateChunkPlanes_def)

lemma mediaIndex_range:
  assumes "p \<in> set (generateChunkPlanes msin cx cy cz n)"
  shows "0 \<le> mediaIndex p \<and> (0 < n \<longrightarrow> mediaIndex p < int n) \<and> (n = 0 \<longrightarrow> mediaIndex p = 0)"
proof -
  from assms obtain i where
    p: "p = makePlane msin cx cy cz n (hashString (chunkKey cx cy cz)) i"
    by (auto simp: generateChunkPlanes_def)
  define r where
    "r = seededRandom msin (real_of_int (hashString (chunkKey cx cy cz)) + of_nat i * 1000 + 5)"
  have r: "0 \<le> r" "r < 1"
    using seededRandom_range [of msin] by (simp_all add: r_def)
  have m: "mediaIndex p = \<lfloor>r * real n\<rfloor>"
    by (simp add: p makePlane_def Let_def r_def)
  have "0 \<le> r * real n" using r by simp
  then have lo: "0 \<le> mediaIndex p" by (simp add: m)
  have hi: "mediaIndex p < int n" if "0 < n"
  proof -
    have "r * real n < real n" using r that by simp
    then have "\<lfloor>r * real n\<rfloor> < int n" by (simp add: floor_less_iff)
    then show ?thesis by (simp add: m)
  qed
  have z: "mediaIndex p = 0" if "n = 0" using that by (simp add: m)
  from lo hi z show ?thesis by blast
qed

text \<open>
  Claim C6 (placement geometry). For every chunk coordinate, every media count and every
  host sine, \<^verbatim>\<open>generateChunkPlanes\<close> returns \<open>ITEMS_PER_CHUNK = 5\<close> placements; each has a
  square base scale with side in \<open>[12, 20]\<close>, and each axis of its position lies in the
  chunk's half-open interval \<open>[c * CHUNK_SIZE, (c + 1) * CHUNK_SIZE)\<close>.
\<close>

theorem generateChunkPlanes_geometry:
  "length (generateChunkPlanes msin cx cy cz mediaCount) = ITEMS_PER_CHUNK \<and>
   ITEMS_PER_CHUNK = 5 \<and>
   (\<forall>p \<in> set (generateChunkPlanes msin cx cy cz mediaCount).
      vec_x (scale p) = vec_y (scale p) \<and>
      12 \<le> vec_x (scale p) \<and> vec_x (scale p) \<le> 20 \<and>
      of_int cx * CHUNK_SIZE \<le> vec_x (position p) \<and>
      vec_x (position p) < (of_int cx + 1) * CHUNK_SIZE \<and>
      of_int cy * CHUNK_SIZE \<le> vec_y (position p) \<and>
      vec_y (position p) < (of_int cy + 1) * CHUNK_SIZE \<and>
      of_int cz * CHUNK_SIZE \<le> vec_z (position p) \<and>
      vec_z (position p) < (of_int cz + 1) * CHUNK_SIZE)"
proof (intro conjI ballI)
  show "length (generateChunkPlanes msin cx cy cz mediaCount) = ITEMS_PER_CHUNK"
    by (simp add: generateChunkPlanes_def)
  show "ITEMS_PER_CHUNK = 5"
    by (simp add: ITEMS_PER_CHUNK_def)
next
  fix p assume "p \<in> set (generateChunkPlanes msin cx cy cz mediaCount)"
  then obtain i where
    p: "p = makePlane msin cx cy cz mediaCount (hashString (chunkKey cx cy cz)) i"
    by (auto simp: generateChunkPlanes_def)
  define s where "s = real_of_int (hashString (chunkKey cx cy cz)) + of_nat i * 1000"
  note r = seededRandom_range [of msin "s + 0"] seededRandom_range [of msin "s + 1"]
    seededRandom_range [of msin "s + 2"] seededRandom_range [of msin "s + 4"]
  have sc: "scale p = Vector3 (12 + seededRandom msin (s + 4) * 8)
                              (12 + seededRandom msin (s + 4) * 8) 1"
    and po: "position p =
       Vector3 (of_int cx * CHUNK_SIZE + seededRandom msin (s + 0) * CHUNK_SIZE)
               (of_int cy * CHUNK_SIZE + seededRandom msin (s + 1) * CHUNK_SIZE)
               (of_int cz * CHUNK_SIZE + seededRandom msin (s + 2) * CHUNK_SIZE)"
    by (simp_all add: p makePlane_def Let_def s_def)
  show "vec_x (scale p) = vec_y (scale p)"
    by (simp add: sc Vector3_def)
  show "12 \<le> vec_x (scale p)"
    using r by (simp add: sc Vector3_def)
  show "vec_x (scale p) \<le> 20"
    using r by (simp add: sc Vector3_def)
  show "of_int cx * CHUNK_SIZE \<le> vec_x (position p)"
    using r by (simp add: po Vector3_def CHUNK_SIZE_def)
  show "vec_x (position p) < (of_int cx + 1) * CHUNK_SIZE"
    using r by (simp add: po Vector3_def CHUNK_SIZE_def algebra_simps)
  show "of_int cy * CHUNK_SIZE \<le> vec_y (position p)"
    using r by (simp add: po Vector3_def CHUNK_SIZE_def)
  show "vec_y (position p) < (of_int cy + 1) * CHUNK_SIZE"
    using r by (simp add: po Vector3_def CHUNK_SIZE_def algebra_simps)
  show "of_int cz * CHUNK_SIZE \<le> vec_z (position p)"
    using r by (simp add: po Vector3_def CHUNK_SIZE_def)
  show "vec_z (position p) < (of_int cz + 1) * CHUNK_SIZE"
    using r by (simp add: po Vector3_def CHUNK_SIZE_def algebra_simps)
qed

theorem generateChunkPlanes_geometry_witness:
  "length (generateChunkPlanes sin 2 (- 1) 0 20) = 5 \<and>
   generateChunkPlanes sin 2 (- 1) 0 20 ! 3 \<in> set (generateChunkPlanes sin 2 (- 1) 0 20) \<and>
   12 \<le> vec_x (scale (generateChunkPlanes sin 2 (- 1) 0 20 ! 3)) \<and>
   vec_x (scale (generateChunkPlanes sin 2 (- 1) 0 20 ! 3)) \<le> 20 \<and>
   220 \<le> vec_x (position (generateChunkPlanes sin 2 (- 1) 0 20 ! 3)) \<and>
   vec_x (position (generateChunkPlanes sin 2 (- 1) 0 20 ! 3)) < 330 \<and>
   - 110 \<le> vec_y (position (generateChunkPlanes sin 2 (- 1) 0 20 ! 3)) \<and>
   vec_y (position (generateChunkPlanes sin 2 (- 1) 0 20 ! 3)) < 0 \<and>
   0 \<le> vec_z (position (generateChunkPlanes sin 2 (- 1) 0 20 ! 3)) \<and>
   vec_z (position (generateChunkPlanes sin 2 (- 1) 0 20 ! 3)) < 110"
proof -
  have len: "length (generateChunkPlanes sin 2 (- 1) 0 20) = 5"
    by (simp add: length_generateChunkPlanes ITEMS_PER_CHUNK_def)
  then have mem: "generateChunkPlanes sin 2 (- 1) 0 20 ! 3
                    \<in> set (generateChunkPlanes sin 2 (- 1) 0 20)"
    by (intro nth_mem) simp
  from generateChunkPlanes_geometry [of sin 2 "- 1" 0 20]
  have "\<forall>p \<in> set (generateChunkPlanes sin 2 (- 1) 0 20).
      12 \<le> vec_x (scale p) \<and> vec_x (scale p) \<le> 20 \<and>
      2 * CHUNK_SIZE \<le> vec_x (position p) \<and> vec_x (position p) < (2 + 1) * CHUNK_SIZE \<and>
      (- 1) * CHUNK_SIZE \<le> vec_y (position p) \<and> vec_y (position p) < (- 1 + 1) * CHUNK_SIZE \<and>
      0 * CHUNK_SIZE \<le> vec_z (position p) \<and> vec_z (position p) < (0 + 1) * CHUNK_SIZE"
    by fastforce
  from bspec [OF this mem] len mem
  show ?thesis by (simp add: CHUNK_SIZE_def)
qed

section \<open>Chunk renderer and scene root on an empty media list\<close>

lemma Chunk_entry:
  assumes "e \<in> set (Chunk msin cx cy cz media v)"
  shows "(media = [] \<longrightarrow> e = None) \<and>
         (media \<noteq> [] \<longrightarrow> (\<exists>props. e = Some props \<and> mp_media props \<in> set media))"
proof -
  from assms obtain p where
    pin: "p \<in> set (generateChunkPlanes msin cx cy cz (length media))" and
    e: "e = (case arrayGet media (jsRemainder (mediaIndex p) (int (length media))) of
              None \<Rightarrow> None
            | Some mediaItem \<Rightarrow>
                Some \<lparr>mp_key = plane_id p, mp_position = position p,
                      mp_scale = scale p, mp_media = mediaItem, mp_visibility = v\<rparr>)"
    by (auto simp: Chunk_def Let_def)
  note mi = mediaIndex_range [OF pin]
  show ?thesis
  proof (cases "media = []")
    case True
    then show ?thesis by (simp add: e jsRemainder_def arrayGet_def)
  next
    case False
    then have n: "0 < length media" by simp
    with mi have b: "0 \<le> mediaIndex p" "mediaIndex p < int (length media)" by auto
    then have "jsRemainder (mediaIndex p) (int (length media)) = Some (mediaIndex p)"
      using n by (cases "mediaIndex p = 0") (auto simp: jsRemainder_def)
    then have "arrayGet media (jsRemainder (mediaIndex p) (int (length media)))
                 = Some (media ! nat (mediaIndex p))"
      using b by (simp add: arrayGet_def)
    moreover have "media ! nat (mediaIndex p) \<in> set media"
      using b by (intro nth_mem) linarith
    ultimately show ?thesis using False by (simp add: e)
  qed
qed

text \<open>
  Claim C9 (empty media list). On an empty media list the scene root returns null, and
  the chunk renderer returns null for each of its five placements: the slot
  \<^verbatim>\<open>0 % 0\<close> is NaN, indexing with it yields undefined, and the guard skips the placement.
  On any media list, a placement is skipped only when the list is empty, and a mounted
  plane always carries an item of the list, so no index out of range is ever used.
\<close>

theorem empty_media_renders_nothing:
  "InfiniteCanvasScene [] = None \<and>
   Chunk msin cx cy cz [] visibility = replicate ITEMS_PER_CHUNK None \<and>
   (\<forall>e \<in> set (Chunk msin cx cy cz media visibility).
      case e of None \<Rightarrow> media = [] | Some props \<Rightarrow> mp_media props \<in> set media)"
proof (intro conjI ballI)
  show "InfiniteCanvasScene [] = None" by (simp add: InfiniteCanvasScene_def)
  have len: "length (Chunk msin cx cy cz [] visibility) = ITEMS_PER_CHUNK"
    by (simp add: Chunk_def Let_def length_generateChunkPlanes)
  have "\<forall>e \<in> set (Chunk msin cx cy cz [] visibility). e = None"
    using Chunk_entry [of _ msin cx cy cz "[]" visibility] by simp
  then have "Chunk msin cx cy cz [] visibility
               = replicate (length (Chunk msin cx cy cz [] visibility)) None"
    by (simp add: replicate_length_same)
  then show "Chunk msin cx cy cz [] visibility = replicate ITEMS_PER_CHUNK None"
    by (simp add: len)
next
  fix e assume "e \<in> set (Chunk msin cx cy cz media visibility)"
  from Chunk_entry [OF this]
  show "case e of None \<Rightarrow> media = [] | Some props \<Rightarrow> mp_media props \<in> set media"
    by (cases "media = []") (auto split: option.splits)
qed

theorem empty_media_renders_nothing_witness:
  "InfiniteCanvasScene [] = None \<and>
   Chunk sin 0 0 0 [] 1 = [None, None, None, None, None] \<and>
   Chunk sin 0 0 0 [\<lparr>url = ''a'', type = image\<rparr>] 1 ! 0
     \<in> set (Chunk sin 0 0 0 [\<lparr>url = ''a'', type = image\<rparr>] 1) \<and>
   (case Chunk sin 0 0 0 [\<lparr>url = ''a'', type = image\<rparr>] 1 ! 0 of
      None \<Rightarrow> [\<lparr>url = ''a'', type = image\<rparr>] = []
    | Some props \<Rightarrow> mp_media props \<in> set [\<lparr>url = ''a'', type = image\<rparr>])"
proof -
  let ?m = "[\<lparr>url = ''a'', type = image\<rparr>]"
  have len: "length (Chunk sin 0 0 0 ?m 1) = 5"
    by (simp add: Chunk_def Let_def length_generateChunkPlanes ITEMS_PER_CHUNK_def)
  then have mem: "Chunk sin 0 0 0 ?m 1 ! 0 \<in> set (Chunk sin 0 0 0 ?m 1)"
    by (intro nth_mem) simp
  have r: "replicate ITEMS_PER_CHUNK None
             = [None, None, None, None, None :: MediaPlaneProps option]"
    by (simp add: ITEMS_PER_CHUNK_def numeral_eq_Suc)
  from empty_media_renders_nothing [of sin 0 0 0 1 ?m] mem r
  show ?thesis by auto
qed

section \<open>Texture cache\<close>

lemma cacheInv_empty: "cacheInv emptyCache"
  by (simp add: cacheInv_def emptyCache_def)

lemma getTexture_hit:
  "textureCache s (url item) = Some t \<Longrightarrow> getTexture item s = (t, s)"
  by (simp add: getTexture_def)

lemma getTexture_stores:
  "getTexture item s = (t, s') \<Longrightarrow> textureCache s' (url item) = Some t"
  by (auto simp: getTexture_def createVideo_def Let_def split: option.splits if_splits prod.splits)

lemma getTexture_keeps:
  "getTexture item s = (t, s') \<Longrightarrow> textureCache s u = Some t0 \<Longrightarrow> textureCache s' u = Some t0"
  by (auto simp: getTexture_def createVideo_def Let_def split: option.splits if_splits prod.splits)

lemma getTexture_dom:
  "getTexture item s = (t, s') \<Longrightarrow> dom (textureCache s') = insert (url item) (dom (textureCache s))"
  by (auto simp: getTexture_def createVideo_def Let_def split: option.splits if_splits prod.splits)

lemma getTexture_inv:
  assumes "cacheInv s" "getTexture item s = (t, s')"
  shows "cacheInv s'"
proof (cases "textureCache s (url item)")
  case (Some c)
  with assms show ?thesis by (simp add: getTexture_def)
next
  case None
  then have nv: "videoElements s (url item) = None"
    using assms(1) by (auto simp: cacheInv_def)
  show ?thesis
  proof (cases "type item = video")
    case True
    with None nv assms(2) have s': "s' = s\<lparr>videoElements := (videoElements s)(url item \<mapsto> \<lparr>video_id = allocated s, video_src = url item\<rparr>),
               allocated := allocated s + 1,
               videosCreated := videosCreated s @ [url item],
               textureCache := (textureCache s)(url item \<mapsto> t),
               allocated := allocated s + 1 + 1\<rparr>"
      by (auto simp: getTexture_def createVideo_def Let_def)
    from assms(1) have c: "count_list (imageLoads s) u + count_list (videosCreated s) u
            = (if u \<in> dom (textureCache s) then 1 else 0)" for u
      by (simp add: cacheInv_def)
    from assms(1) have d: "dom (videoElements s) \<subseteq> dom (textureCache s)"
      by (simp add: cacheInv_def)
    show ?thesis unfolding cacheInv_def
    proof (intro conjI allI)
      show "dom (videoElements s') \<subseteq> dom (textureCache s')"
        using d by (auto simp: s')
      fix u
      show "count_list (imageLoads s') u + count_list (videosCreated s') u
              = (if u \<in> dom (textureCache s') then 1 else 0)"
        using c [of u] c [of "url item"] None by (auto simp: s' split: if_splits)
    qed
  next
    case False
    with None assms(2) have s': "s' = s\<lparr>textureCache := (textureCache s)(url item \<mapsto> t),
                           allocated := allocated s + 1,
                           imageLoads := imageLoads s @ [url item]\<rparr>"
      by (auto simp: getTexture_def Let_def)
    from assms(1) have c: "count_list (imageLoads s) u + count_list (videosCreated s) u
            = (if u \<in> dom (textureCache s) then 1 else 0)" for u
      by (simp add: cacheInv_def)
    from assms(1) have d: "dom (videoElements s) \<subseteq> dom (textureCache s)"
      by (simp add: cacheInv_def)
    show ?thesis unfolding cacheInv_def
    proof (intro conjI allI)
      show "dom (videoElements s') \<subseteq> dom (textureCache s')"
        using d by (auto simp: s')
      fix u
      show "count_list (imageLoads s') u + count_list (videosCreated s') u
              = (if u \<in> dom (textureCache s') then 1 else 0)"
        using c [of u] c [of "url item"] None by (auto simp: s' split: if_splits)
    qed
  qed
qed

lemma getTextures_keeps:
  "getTextures items s = (ts, s') \<Longrightarrow> textureCache s u = Some t0 \<Longrightarrow> textureCache s' u = Some t0"
proof (induction items arbitrary: s ts s')
  case Nil
  then show ?case by simp
next
  case (Cons item items)
  obtain t s1 where h: "getTexture item s = (t, s1)" by (cases "getTexture item s")
  obtain ts' s2 where r: "getTextures items s1 = (ts', s2)" by (cases "getTextures items s1")
  from Cons.prems(1) h r have "s' = s2" by simp
  with Cons.IH [OF r getTexture_keeps [OF h Cons.prems(2)]] show ?case by simp
qed

lemma getTextures_results:
  "getTextures items s = (ts, s') \<Longrightarrow>
     length ts = length items \<and>
     (\<forall>i < length items. textureCache s' (url (items ! i)) = Some (ts ! i))"
proof (induction items arbitrary: s ts s')
  case Nil
  then show ?case by simp
next
  case (Cons item items)
  obtain t s1 where h: "getTexture item s = (t, s1)" by (cases "getTexture item s")
  obtain ts' s2 where r: "getTextures items s1 = (ts', s2)" by (cases "getTextures items s1")
  from Cons.prems h r have eq: "ts = t # ts'" "s' = s2" by simp_all
  note ih = Cons.IH [OF r]
  have hd: "textureCache s2 (url item) = Some t"
    by (rule getTextures_keeps [OF r getTexture_stores [OF h]])
  show ?case
  proof (intro conjI allI impI)
    show "length ts = length (item # items)" using ih eq by simp
    fix i assume "i < length (item # items)"
    then show "textureCache s' (url ((item # items) ! i)) = Some (ts ! i)"
      using ih hd eq by (cases i) auto
  qed
qed

lemma getTextures_inv:
  "getTextures items s = (ts, s') \<Longrightarrow> cacheInv s \<Longrightarrow> cacheInv s'"
proof (induction items arbitrary: s ts s')
  case Nil
  then show ?case by simp
next
  case (Cons item items)
  obtain t s1 where h: "getTexture item s = (t, s1)" by (cases "getTexture item s")
  obtain ts' s2 where r: "getTextures items s1 = (ts', s2)" by (cases "getTextures items s1")
  from Cons.prems(1) h r have "s' = s2" by simp
  with Cons.IH [OF r getTexture_inv [OF Cons.prems(2) h]] show ?case by simp
qed

lemma getTextures_dom:
  "getTextures items s = (ts, s') \<Longrightarrow> dom (textureCache s') = url ` set items \<union> dom (textureCache s)"
proof (induction items arbitrary: s ts s')
  case Nil
  then show ?case by simp
next
  case (Cons item items)
  obtain t s1 where h: "getTexture item s = (t, s1)" by (cases "getTexture item s")
  obtain ts' s2 where r: "getTextures items s1 = (ts', s2)" by (cases "getTextures items s1")
  from Cons.prems(1) h r have "s' = s2" by simp
  with Cons.IH [OF r] getTexture_dom [OF h] show ?case by auto
qed

text \<open>
  Claim C4 (cache deduplication). Over any sequence of \<^verbatim>\<open>getTexture\<close> calls from the empty
  cache, two calls whose items have the same url return the same texture object, and for
  every url the number of image loads plus the number of video elements created is one
  when the url was requested and zero otherwise.
\<close>

theorem getTexture_deduplicates:
  assumes "getTextures items emptyCache = (ts, s')"
  shows "length ts = length items \<and>
         (\<forall>i < length items. \<forall>j < length items.
            url (items ! i) = url (items ! j) \<longrightarrow> ts ! i = ts ! j) \<and>
         (\<forall>u. count_list (imageLoads s') u + count_list (videosCreated s') u
                = (if u \<in> url ` set items then 1 else 0))"
proof -
  note res = getTextures_results [OF assms]
  have inv: "cacheInv s'"
    by (rule getTextures_inv [OF assms cacheInv_empty])
  have dom: "dom (textureCache s') = url ` set items"
    using getTextures_dom [OF assms] by (simp add: emptyCache_def)
  have same: "ts ! i = ts ! j"
    if "i < length items" "j < length items" "url (items ! i) = url (items ! j)" for i j
  proof -
    from res that have "Some (ts ! i) = Some (ts ! j)" by metis
    then show ?thesis by simp
  qed
  from inv dom have "\<forall>u. count_list (imageLoads s') u + count_list (videosCreated s') u
                = (if u \<in> url ` set items then 1 else 0)"
    by (simp add: cacheInv_def)
  with res same show ?thesis by blast
qed


theorem getTexture_deduplicates_witness:
  "length (fst (getTextures [\<lparr>url = ''a'', type = image\<rparr>, \<lparr>url = ''b'', type = video\<rparr>,
                  \<lparr>url = ''a'', type = video\<rparr>] emptyCache)) = 3 \<and>
   fst (getTextures [\<lparr>url = ''a'', type = image\<rparr>, \<lparr>url = ''b'', type = video\<rparr>,
                  \<lparr>url = ''a'', type = video\<rparr>] emptyCache) ! 0
    = fst (getTextures [\<lparr>url = ''a'', type = image\<rparr>, \<lparr>url = ''b'', type = video\<rparr>,
                  \<lparr>url = ''a'', type = video\<rparr>] emptyCache) ! 2 \<and>
   count_list (imageLoads (snd (getTextures [\<lparr>url = ''a'', type = image\<rparr>,
       \<lparr>url = ''b'', type = video\<rparr>, \<lparr>url = ''a'', type = video\<rparr>] emptyCache))) ''a''
   + count_list (videosCreated (snd (getTextures [\<lparr>url = ''a'', type = image\<rparr>,
       \<lparr>url = ''b'', type = video\<rparr>, \<lparr>url = ''a'', type = video\<rparr>] emptyCache))) ''a'' = 1"
proof -
  let ?items = "[\<lparr>url = ''a'', type = image\<rparr>, \<lparr>url = ''b'', type = video\<rparr>,
                  \<lparr>url = ''a'', type = video\<rparr>]"
  have run: "getTextures ?items emptyCache
               = (fst (getTextures ?items emptyCache), snd (getTextures ?items emptyCache))"
    by simp
  have u: "url (?items ! 0) = url (?items ! 2)" by simp
  from getTexture_deduplicates [OF run] u show ?thesis by auto
qed

section \<open>The frame callback: integration\<close>

lemma integrate_targetVel:
  "targetVel (integrate s) =
     Vector3 (0.9 * vec_x (clampedTarget s)) (0.9 * vec_y (clampedTarget s))
             (0.9 * vec_z (clampedTarget s))"
  by (rule vec3.equality)
     (simp_all add: integrate_def clampedTarget_def heldIncrement_def Vector3_def
        MAX_VELOCITY_def Let_def)

lemma integrate_velocity:
  "velocity (integrate s) =
     Vector3 (lerp (vec_x (velocity s)) (vec_x (clampedTarget s)) 0.16)
             (lerp (vec_y (velocity s)) (vec_y (clampedTarget s)) 0.16)
             (lerp (vec_z (velocity s)) (vec_z (clampedTarget s)) 0.16)"
  by (rule vec3.equality)
     (simp_all add: integrate_def clampedTarget_def heldIncrement_def Vector3_def
        MAX_VELOCITY_def Let_def)

lemma integrate_cameraPosition:
  "cameraPosition (integrate s) =
     Vector3 (vec_x (cameraPosition s) + vec_x (velocity (integrate s)))
             (vec_y (cameraPosition s) + vec_y (velocity (integrate s)))
             (vec_z (cameraPosition s) + vec_z (velocity (integrate s)))"
  by (rule vec3.equality)
     (simp_all add: integrate_def Vector3_def Let_def)

lemma integrate_others:
  "scrollAccum (integrate s) = 0.8 * scrollAccum s"
  "keys (integrate s) = keys s"
  "chunks (integrate s) = chunks s"
  "lastTouchDist (integrate s) = lastTouchDist s"
  "lastTouches (integrate s) = lastTouches s"
  by (simp_all add: integrate_def Let_def)

lemma useFrame_fields:
  "targetVel (useFrame s) = targetVel (integrate s)"
  "velocity (useFrame s) = velocity (integrate s)"
  "cameraPosition (useFrame s) = cameraPosition (integrate s)"
  "scrollAccum (useFrame s) = scrollAccum (integrate s)"
  "keys (useFrame s) = keys (integrate s)"
  by (simp_all add: useFrame_def Let_def)

lemma dispatch_fields:
  "velocity (dispatch e s) = velocity s"
  "cameraPosition (dispatch e s) = cameraPosition s"
  "chunks (dispatch e s) = chunks s"
  by (cases e; simp add: onKeyDown_def onKeyUp_def onMouseDown_def onMouseUp_def
        onMouseMove_def onWheel_def onTouchStart_def onTouchMove_def onTouchEnd_def Let_def
        split: list.splits)+

lemma useFrame_axes:
  "vec_x (velocity (useFrame s)) = lerp (vec_x (velocity s)) (vec_x (clampedTarget s)) 0.16"
  "vec_y (velocity (useFrame s)) = lerp (vec_y (velocity s)) (vec_y (clampedTarget s)) 0.16"
  "vec_z (velocity (useFrame s)) = lerp (vec_z (velocity s)) (vec_z (clampedTarget s)) 0.16"
  "vec_x (targetVel (useFrame s)) = 0.9 * vec_x (clampedTarget s)"
  "vec_y (targetVel (useFrame s)) = 0.9 * vec_y (clampedTarget s)"
  "vec_z (targetVel (useFrame s)) = 0.9 * vec_z (clampedTarget s)"
  "vec_x (cameraPosition (useFrame s)) = vec_x (cameraPosition s) + vec_x (velocity (useFrame s))"
  "vec_y (cameraPosition (useFrame s)) = vec_y (cameraPosition s) + vec_y (velocity (useFrame s))"
  "vec_z (cameraPosition (useFrame s)) = vec_z (cameraPosition s) + vec_z (velocity (useFrame s))"
  by (simp_all only: useFrame_fields integrate_targetVel integrate_velocity
        integrate_cameraPosition Vector3_def vec3.simps)

lemma keyNudge_bound:
  "keyNudge ''w'' = Vector3 0 0 (- 0.18)" "keyNudge ''arrowup'' = Vector3 0 0 (- 0.18)"
  "keyNudge ''s'' = Vector3 0 0 0.18" "keyNudge ''arrowdown'' = Vector3 0 0 0.18"
  "keyNudge ''a'' = Vector3 (- 0.18) 0 0" "keyNudge ''arrowleft'' = Vector3 (- 0.18) 0 0"
  "keyNudge ''d'' = Vector3 0.18 0 0" "keyNudge ''arrowright'' = Vector3 0.18 0 0"
  "keyNudge ''q'' = Vector3 0 (- 0.18) 0" "keyNudge ''e'' = Vector3 0 0.18 0"
  "keyNudge '' '' = Vector3 0 0 (- (1.5 * 0.18))"
  unfolding keyNudge_def by simp_all

lemma keyIncrement_unfold:
  "keyIncrement h =
     Vector3
       ((if ''a'' \<in> h then - 0.18 else 0) + (if ''arrowleft'' \<in> h then - 0.18 else 0)
          + (if ''d'' \<in> h then 0.18 else 0) + (if ''arrowright'' \<in> h then 0.18 else 0))
       ((if ''q'' \<in> h then - 0.18 else 0) + (if ''e'' \<in> h then 0.18 else 0))
       ((if ''w'' \<in> h then - 0.18 else 0) + (if ''arrowup'' \<in> h then - 0.18 else 0)
          + (if ''s'' \<in> h then 0.18 else 0) + (if ''arrowdown'' \<in> h then 0.18 else 0)
          + (if '' '' \<in> h then - (1.5 * 0.18) else 0))"
  unfolding keyIncrement_def boundKeys_def
  by (simp add: keyNudge_bound Vector3_def)

lemma keyIncrement_once:
  "keyIncrement (oncePerDirection k) = heldIncrement k"
  unfolding keyIncrement_unfold heldIncrement_def oncePerDirection_def Vector3_def
  by (rule vec3.equality; simp)

lemma oncePerDirection_id:
  "\<not> (''w'' \<in> k \<and> ''arrowup'' \<in> k) \<Longrightarrow> \<not> (''s'' \<in> k \<and> ''arrowdown'' \<in> k) \<Longrightarrow>
   \<not> (''a'' \<in> k \<and> ''arrowleft'' \<in> k) \<Longrightarrow> \<not> (''d'' \<in> k \<and> ''arrowright'' \<in> k) \<Longrightarrow>
   oncePerDirection k = k"
  unfolding oncePerDirection_def by (simp split: if_splits)

lemma intoRange_clamp: "intoRange v = clamp v (- MAX_VELOCITY) MAX_VELOCITY"
  unfolding intoRange_def clamp_def MAX_VELOCITY_def by (simp add: max_def min_def)

lemma toward_lerp: "toward v t = lerp v t 0.16"
  unfolding toward_def lerp_def by simp

lemma frameAsSpecified_fields:
  "targetVel (frameAsSpecified h s) =
     Vector3 (0.9 * intoRange (vec_x (targetVel s) + vec_x (keyIncrement h)))
             (0.9 * intoRange (vec_y (targetVel s) + vec_y (keyIncrement h)))
             (0.9 * intoRange (vec_z (targetVel s) + vec_z (keyIncrement h) + scrollAccum s))"
  "velocity (frameAsSpecified h s) =
     Vector3 (toward (vec_x (velocity s)) (intoRange (vec_x (targetVel s) + vec_x (keyIncrement h))))
             (toward (vec_y (velocity s)) (intoRange (vec_y (targetVel s) + vec_y (keyIncrement h))))
             (toward (vec_z (velocity s))
                (intoRange (vec_z (targetVel s) + vec_z (keyIncrement h) + scrollAccum s)))"
  "cameraPosition (frameAsSpecified h s) =
     Vector3 (vec_x (cameraPosition s) + vec_x (velocity (frameAsSpecified h s)))
             (vec_y (cameraPosition s) + vec_y (velocity (frameAsSpecified h s)))
             (vec_z (cameraPosition s) + vec_z (velocity (frameAsSpecified h s)))"
  "scrollAccum (frameAsSpecified h s) = 0.8 * scrollAccum s"
  "keys (frameAsSpecified h s) = keys s"
  "isDragging (frameAsSpecified h s) = isDragging s"
  "lastMouse (frameAsSpecified h s) = lastMouse s"
  "lastTouches (frameAsSpecified h s) = lastTouches s"
  "lastTouchDist (frameAsSpecified h s) = lastTouchDist s"
  "chunks (frameAsSpecified h s) = chunks s"
  "Controller.more (frameAsSpecified h s) = Controller.more s"
  by (simp_all add: frameAsSpecified_def stage1_keys_def stage2_scroll_def stage3_clamp_def
        stage4_ease_def stage5_move_def stage6_decay_def Vector3_def)

lemma integrate_rest:
  "isDragging (integrate s) = isDragging s"
  "lastMouse (integrate s) = lastMouse s"
  "Controller.more (integrate s) = Controller.more s"
  by (simp_all add: integrate_def Let_def)

lemma integrate_frameAsSpecified:
  "integrate s = frameAsSpecified (oncePerDirection (keys s)) s"
  by (rule Controller.equality)
     (simp_all only: frameAsSpecified_fields integrate_targetVel integrate_velocity
        integrate_cameraPosition integrate_others integrate_rest keyIncrement_once
        clampedTarget_def intoRange_clamp toward_lerp MAX_VELOCITY_def Vector3_def vec3.simps)

text \<open>
  Where the order of two stages can be seen, it is the one stated. On a target of 3 with an
  accumulator of 1, clamping before the accumulator is added leaves 4 where the frame leaves
  3.2; on a target of 4, easing before the clamp, moving before easing, or decaying before
  easing each give another velocity or position. Stages 1 and 2 both add to the target, and
  stages 5 and 6 write different fields: either pair gives the same state in both orders.
\<close>

lemma stage_order_observable:
  "stage2_scroll (stage3_clamp (initialController\<lparr>targetVel := Vector3 0 0 3, scrollAccum := 1\<rparr>))
     \<noteq> stage3_clamp (stage2_scroll (initialController\<lparr>targetVel := Vector3 0 0 3, scrollAccum := 1\<rparr>))"
  "stage3_clamp (stage4_ease (initialController\<lparr>targetVel := Vector3 0 0 4\<rparr>))
     \<noteq> stage4_ease (stage3_clamp (initialController\<lparr>targetVel := Vector3 0 0 4\<rparr>))"
  "stage4_ease (stage5_move (initialController\<lparr>targetVel := Vector3 0 0 4\<rparr>))
     \<noteq> stage5_move (stage4_ease (initialController\<lparr>targetVel := Vector3 0 0 4\<rparr>))"
  "stage4_ease (stage6_decay (initialController\<lparr>targetVel := Vector3 0 0 4\<rparr>))
     \<noteq> stage6_decay (stage4_ease (initialController\<lparr>targetVel := Vector3 0 0 4\<rparr>))"
proof -
  let ?t = "initialController\<lparr>targetVel := Vector3 0 0 3, scrollAccum := 1\<rparr>"
  let ?u = "initialController\<lparr>targetVel := Vector3 0 0 4\<rparr>"
  have "vec_z (targetVel (stage2_scroll (stage3_clamp ?t)))
          \<noteq> vec_z (targetVel (stage3_clamp (stage2_scroll ?t)))"
    by (simp add: stage2_scroll_def stage3_clamp_def intoRange_def Vector3_def)
  then show "stage2_scroll (stage3_clamp ?t) \<noteq> stage3_clamp (stage2_scroll ?t)"
    by metis
  have "vec_z (velocity (stage3_clamp (stage4_ease ?u)))
          \<noteq> vec_z (velocity (stage4_ease (stage3_clamp ?u)))"
    by (simp add: stage3_clamp_def stage4_ease_def intoRange_def toward_def Vector3_def
          initialController_def)
  then show "stage3_clamp (stage4_ease ?u) \<noteq> stage4_ease (stage3_clamp ?u)"
    by metis
  have "vec_z (cameraPosition (stage4_ease (stage5_move ?u)))
          \<noteq> vec_z (cameraPosition (stage5_move (stage4_ease ?u)))"
    by (simp add: stage4_ease_def stage5_move_def toward_def Vector3_def initialController_def)
  then show "stage4_ease (stage5_move ?u) \<noteq> stage5_move (stage4_ease ?u)"
    by metis
  have "vec_z (velocity (stage4_ease (stage6_decay ?u)))
          \<noteq> vec_z (velocity (stage6_decay (stage4_ease ?u)))"
    by (simp add: stage4_ease_def stage6_decay_def toward_def Vector3_def initialController_def)
  then show "stage4_ease (stage6_decay ?u) \<noteq> stage6_decay (stage4_ease ?u)"
    by metis
qed

lemma stage_order_free:
  "stage2_scroll (stage1_keys h s) = stage1_keys h (stage2_scroll s)"
  "stage6_decay (stage5_move s) = stage5_move (stage6_decay s)"
  by (simp_all add: stage1_keys_def stage2_scroll_def stage5_move_def stage6_decay_def Vector3_def)

text \<open>
  Claim C5 (integration order), as amended. The claim as stated fails on the first stage:
  the source tests the two keys of a direction together, so W and ArrowUp held at once push
  the target forward by 0.18, not by twice that. What holds: one frame's integration, as
  the source writes it, is the composition of the six stages in the order stated, the key
  increments (0.18 per key, 1.5 times that for Space on the forward axis) being summed over
  the keys held with each direction counted once: the clamp of each target axis to
  \<open>[-3.2, 3.2]\<close> follows the key increments and the scroll accumulator (added to the z axis
  and then multiplied by 0.8), and precedes the easing of velocity toward the target by
  factor 0.16, the move of the camera by the velocity, and the decay of the target by 0.9.
  When no direction is held through both of its keys, this is the sum over the keys held,
  as the claim has it.
\<close>

theorem integrate_order:
  "integrate s = frameAsSpecified (oncePerDirection (keys s)) s \<and>
   (\<not> (''w'' \<in> keys s \<and> ''arrowup'' \<in> keys s) \<and>
    \<not> (''s'' \<in> keys s \<and> ''arrowdown'' \<in> keys s) \<and>
    \<not> (''a'' \<in> keys s \<and> ''arrowleft'' \<in> keys s) \<and>
    \<not> (''d'' \<in> keys s \<and> ''arrowright'' \<in> keys s)
      \<longrightarrow> integrate s = frameAsSpecified (keys s) s)"
proof (intro conjI impI)
  show "integrate s = frameAsSpecified (oncePerDirection (keys s)) s"
    by (rule integrate_frameAsSpecified)
next
  assume "\<not> (''w'' \<in> keys s \<and> ''arrowup'' \<in> keys s) \<and>
          \<not> (''s'' \<in> keys s \<and> ''arrowdown'' \<in> keys s) \<and>
          \<not> (''a'' \<in> keys s \<and> ''arrowleft'' \<in> keys s) \<and>
          \<not> (''d'' \<in> keys s \<and> ''arrowright'' \<in> keys s)"
  then have "oncePerDirection (keys s) = keys s"
    by (intro oncePerDirection_id) blast+
  with integrate_frameAsSpecified [of s]
  show "integrate s = frameAsSpecified (keys s) s" by simp
qed

lemma toLowerCase_keys:
  "toLowerCase ''w'' = ''w''" "toLowerCase ''d'' = ''d''" "toLowerCase '' '' = '' ''"
  "toLowerCase ''ArrowUp'' = ''arrowup''"
  by code_simp+

text \<open>
  The claim as stated, at W and ArrowUp held together from the mounted state: the frame
  leaves the z target at \<open>-0.162\<close>, the sum over the keys held would leave it at
  \<open>-0.324\<close>.
\<close>

theorem integrate_order_counterexample:
  "keys (run [Input (KeyDown ''w''), Input (KeyDown ''ArrowUp'')]) = {''w'', ''arrowup''} \<and>
   vec_z (targetVel (integrate (run [Input (KeyDown ''w''), Input (KeyDown ''ArrowUp'')])))
     = - 0.162 \<and>
   vec_z (targetVel (frameAsSpecified {''w'', ''arrowup''}
            (run [Input (KeyDown ''w''), Input (KeyDown ''ArrowUp'')]))) = - 0.324 \<and>
   integrate (run [Input (KeyDown ''w''), Input (KeyDown ''ArrowUp'')])
     \<noteq> frameAsSpecified (keys (run [Input (KeyDown ''w''), Input (KeyDown ''ArrowUp'')]))
           (run [Input (KeyDown ''w''), Input (KeyDown ''ArrowUp'')])"
proof -
  let ?s = "run [Input (KeyDown ''w''), Input (KeyDown ''ArrowUp'')]"
  have k: "keys ?s = {''w'', ''arrowup''}"
    and t: "targetVel ?s = Vector3 0 0 0" and a: "scrollAccum ?s = 0"
    by (auto simp: run_def onKeyDown_def toLowerCase_keys initialController_def)
  have i: "vec_z (targetVel (integrate ?s)) = - 0.162"
    by (simp add: integrate_targetVel clampedTarget_def heldIncrement_def k t a Vector3_def
          clamp_def)
  have f: "vec_z (targetVel (frameAsSpecified {''w'', ''arrowup''} ?s)) = - 0.324"
    by (simp add: frameAsSpecified_fields keyIncrement_unfold t a Vector3_def intoRange_def)
  have "integrate ?s \<noteq> frameAsSpecified (keys ?s) ?s"
  proof
    assume "integrate ?s = frameAsSpecified (keys ?s) ?s"
    then have "vec_z (targetVel (integrate ?s))
                 = vec_z (targetVel (frameAsSpecified {''w'', ''arrowup''} ?s))"
      unfolding k by (rule arg_cong)
    then show False unfolding i f by simp
  qed
  with k i f show ?thesis by blast
qed

theorem integrate_order_witness:
  "keys (run [Input (KeyDown ''w''), Input (KeyDown ''d''), Input (KeyDown '' ''),
              Input (Wheel 100)]) = {''w'', ''d'', '' ''} \<and>
   integrate (run [Input (KeyDown ''w''), Input (KeyDown ''d''), Input (KeyDown '' ''),
                   Input (Wheel 100)])
     = frameAsSpecified {''w'', ''d'', '' ''}
         (run [Input (KeyDown ''w''), Input (KeyDown ''d''), Input (KeyDown '' ''),
               Input (Wheel 100)]) \<and>
   targetVel (frameAsSpecified {''w'', ''d'', '' ''}
         (run [Input (KeyDown ''w''), Input (KeyDown ''d''), Input (KeyDown '' ''),
               Input (Wheel 100)])) = Vector3 0.162 0 0.135"
proof -
  let ?s = "run [Input (KeyDown ''w''), Input (KeyDown ''d''), Input (KeyDown '' ''),
                 Input (Wheel 100)]"
  have k: "keys ?s = {''w'', ''d'', '' ''}"
    and t: "targetVel ?s = Vector3 0 0 0" and a: "scrollAccum ?s = 0.6"
    by (auto simp: run_def onKeyDown_def onWheel_def toLowerCase_keys initialController_def)
  have f: "targetVel (frameAsSpecified {''w'', ''d'', '' ''} ?s) = Vector3 0.162 0 0.135"
    by (simp add: frameAsSpecified_fields keyIncrement_unfold t a Vector3_def intoRange_def)
  from integrate_order [of ?s, THEN conjunct2]
  have "integrate ?s = frameAsSpecified {''w'', ''d'', '' ''} ?s"
    unfolding k by simp
  with k f show ?thesis by blast
qed

lemma clamp_abs: "0 \<le> m \<Longrightarrow> \<bar>clamp v (- m) m\<bar> \<le> m"
  by (auto simp: clamp_def abs_le_iff max_def min_def)

lemma clampedTarget_bounds:
  "\<bar>vec_x (clampedTarget s)\<bar> \<le> 3.2" "\<bar>vec_y (clampedTarget s)\<bar> \<le> 3.2"
  "\<bar>vec_z (clampedTarget s)\<bar> \<le> 3.2"
  unfolding clampedTarget_def Vector3_def vec3.simps
  by (rule clamp_abs, simp)+

lemma lerp_convex:
  assumes "\<bar>a\<bar> \<le> m" "\<bar>b\<bar> \<le> m"
  shows "\<bar>lerp a b 0.16\<bar> \<le> m"
proof -
  from assms have "- m \<le> a" "a \<le> m" "- m \<le> b" "b \<le> m"
    by (auto simp: abs_le_iff)
  then have "a + (b - a) * 0.16 \<le> m" "- (a + (b - a) * 0.16) \<le> m"
    by (simp_all add: field_simps)
  then show ?thesis
    unfolding lerp_def by (rule abs_leI)
qed

lemma run_snoc: "run (steps @ [a]) = step a (run steps)"
  by (simp add: run_def)

lemma run_velocity_bounds:
  "\<bar>vec_x (velocity (run steps))\<bar> \<le> 3.2 \<and> \<bar>vec_y (velocity (run steps))\<bar> \<le> 3.2 \<and>
   \<bar>vec_z (velocity (run steps))\<bar> \<le> 3.2"
proof (induction steps rule: rev_induct)
  case Nil
  show ?case by (simp add: run_def initialController_def Vector3_def)
next
  case (snoc a steps)
  show ?case
  proof (cases a)
    case (Input e)
    with snoc show ?thesis by (simp only: run_snoc step.simps dispatch_fields)
  next
    case Frame
    note ct = clampedTarget_bounds [of "run steps"]
    from snoc have v: "\<bar>vec_x (velocity (run steps))\<bar> \<le> 3.2"
      "\<bar>vec_y (velocity (run steps))\<bar> \<le> 3.2" "\<bar>vec_z (velocity (run steps))\<bar> \<le> 3.2"
      by blast+
    show ?thesis
      unfolding Frame run_snoc step.simps useFrame_axes
      by (intro conjI lerp_convex v ct)
  qed
qed

lemma run_camera_close:
  "\<bar>vec_x (cameraPosition (useFrame (run steps))) - vec_x (cameraPosition (run steps))\<bar> \<le> 3.2"
  "\<bar>vec_y (cameraPosition (useFrame (run steps))) - vec_y (cameraPosition (run steps))\<bar> \<le> 3.2"
  "\<bar>vec_z (cameraPosition (useFrame (run steps))) - vec_z (cameraPosition (run steps))\<bar> \<le> 3.2"
proof -
  note rv = run_velocity_bounds [of steps]
  note rt = clampedTarget_bounds [of "run steps"]
  have nv: "\<bar>vec_x (velocity (useFrame (run steps)))\<bar> \<le> 3.2"
    "\<bar>vec_y (velocity (useFrame (run steps)))\<bar> \<le> 3.2"
    "\<bar>vec_z (velocity (useFrame (run steps)))\<bar> \<le> 3.2"
    unfolding useFrame_axes using rv by (intro lerp_convex rt; blast)+
  then show
    "\<bar>vec_x (cameraPosition (useFrame (run steps))) - vec_x (cameraPosition (run steps))\<bar> \<le> 3.2"
    "\<bar>vec_y (cameraPosition (useFrame (run steps))) - vec_y (cameraPosition (run steps))\<bar> \<le> 3.2"
    "\<bar>vec_z (cameraPosition (useFrame (run steps))) - vec_z (cameraPosition (run steps))\<bar> \<le> 3.2"
    by (simp_all add: useFrame_axes(7-9))
qed

section \<open>Binary64 arithmetic\<close>

lemma roundHalfEven_of_int [simp]: "roundHalfEven (of_int n) = n"
  by (simp add: roundHalfEven_def)

lemma roundHalfEven_bounds: "y - 1 / 2 \<le> of_int (roundHalfEven y)" "of_int (roundHalfEven y) \<le> y + 1 / 2"
  unfolding roundHalfEven_def Let_def by (auto; linarith)+

lemma roundHalfEven_floor: "\<lfloor>y\<rfloor> \<le> roundHalfEven y" "roundHalfEven y \<le> \<lfloor>y\<rfloor> + 1"
  unfolding roundHalfEven_def Let_def by auto

lemma roundHalfEven_mono:
  assumes "a \<le> b" shows "roundHalfEven a \<le> roundHalfEven b"
proof (cases "\<lfloor>a\<rfloor> = \<lfloor>b\<rfloor>")
  case True
  with assms show ?thesis
    unfolding roundHalfEven_def Let_def by auto
next
  case False
  with assms have "\<lfloor>a\<rfloor> < \<lfloor>b\<rfloor>"
    by (simp add: floor_mono order.strict_iff_order)
  with roundHalfEven_floor(2) [of a] roundHalfEven_floor(1) [of b] show ?thesis
    by linarith
qed

lemma roundHalfEven_minus: "roundHalfEven (- y) = - roundHalfEven y"
proof (cases "y \<in> \<int>")
  case True
  then obtain n where "y = of_int n" by (auto elim: Ints_cases)
  then show ?thesis
    by (simp add: roundHalfEven_def flip: of_int_minus)
next
  case False
  then have nn: "\<And>n. y \<noteq> of_int n"
    by (metis Ints_of_int)
  then have ne: "y \<noteq> of_int \<lfloor>y\<rfloor>"
    by blast
  from nn have c: "\<lceil>y\<rceil> = \<lfloor>y\<rfloor> + 1"
    by (simp add: ceiling_altdef)
  have f: "\<lfloor>- y\<rfloor> = - \<lfloor>y\<rfloor> - 1"
    unfolding floor_minus c by simp
  have lt: "of_int \<lfloor>y\<rfloor> < y"
    unfolding order.strict_iff_order using of_int_floor_le [of y] ne [symmetric] by blast
  show ?thesis
    unfolding roundHalfEven_def Let_def f
    using lt by (auto simp: field_simps)
qed

lemma quantum_binade: "quantum x = 2 powr (of_int (binade x) - 52)"
  by (simp add: quantum_def)

lemma quantum_pos [simp]: "0 < quantum x"
  by (simp add: quantum_def)

lemma quantum_nonneg [simp]: "0 \<le> quantum x"
  by (simp add: quantum_def)

lemma quantum_nonzero [simp]: "quantum x \<noteq> 0"
  by (simp add: quantum_def)

lemma quantum_minus [simp]: "quantum (- x) = quantum x"
  by (simp add: quantum_def binade_def)

lemma binary64_minus: "binary64 (- x) = - binary64 x"
  by (simp add: binary64_def roundHalfEven_minus)

lemma binary64_zero [simp]: "binary64 0 = 0"
  by (simp add: binary64_def)

lemma binade_mono:
  assumes "0 < x" "x \<le> y" shows "binade x \<le> binade y"
proof -
  from assms have "log 2 \<bar>x\<bar> \<le> log 2 \<bar>y\<bar>" by simp
  then have "\<lfloor>log 2 \<bar>x\<bar>\<rfloor> \<le> \<lfloor>log 2 \<bar>y\<bar>\<rfloor>" by (rule floor_mono)
  then show ?thesis unfolding binade_def by linarith
qed

lemma below_next_binade:
  assumes "0 < x" shows "x < 2 powr (of_int (binade x) + 1)"
proof -
  have "x < 2 powr (of_int \<lfloor>log 2 x\<rfloor> + 1)"
    using floor_log_eq_powr_iff [of x 2 "\<lfloor>log 2 x\<rfloor>"] assms by simp
  also have "\<dots> \<le> 2 powr (of_int (binade x) + 1)"
    using assms by (simp add: binade_def)
  finally show ?thesis .
qed

lemma above_binade:
  assumes "0 < x" "- 1022 < binade x" shows "2 powr of_int (binade x) \<le> x"
proof -
  from assms have "binade x = \<lfloor>log 2 x\<rfloor>"
    by (simp add: binade_def max_def split: if_splits)
  then show ?thesis
    using floor_log_eq_powr_iff [of x 2 "\<lfloor>log 2 x\<rfloor>"] assms by simp
qed

lemma powr_split: "(2::real) powr (a + 1) = 2 ^ 53 * 2 powr (a - 52)"
proof -
  have "(2::real) powr (a + 1) = 2 powr (53 + (a - 52))"
    by (rule arg_cong [where f = "\<lambda>t. 2 powr t"]) simp
  also have "\<dots> = 2 powr 53 * 2 powr (a - 52)" by (rule powr_add)
  also have "(2::real) powr 53 = 2 ^ 53" by (simp add: powr_numeral)
  finally show ?thesis .
qed

lemma powr_split': "(2::real) powr a = 2 ^ 52 * 2 powr (a - 52)"
proof -
  have "(2::real) powr a = 2 powr (52 + (a - 52))"
    by (rule arg_cong [where f = "\<lambda>t. 2 powr t"]) simp
  also have "\<dots> = 2 powr 52 * 2 powr (a - 52)" by (rule powr_add)
  also have "(2::real) powr 52 = 2 ^ 52" by (simp add: powr_numeral)
  finally show ?thesis .
qed

lemma scaled_le:
  assumes "of_int n \<le> x / quantum x" shows "of_int n * quantum x \<le> binary64 x \<or> x = 0"
proof (cases "x = 0")
  case False
  from assms have "roundHalfEven (of_int n) \<le> roundHalfEven (x / quantum x)"
    by (rule roundHalfEven_mono)
  then have "n \<le> roundHalfEven (x / quantum x)" by (simp only: roundHalfEven_of_int)
  then have "real_of_int n \<le> real_of_int (roundHalfEven (x / quantum x))" by simp
  then have "real_of_int n * quantum x \<le> real_of_int (roundHalfEven (x / quantum x)) * quantum x"
    by (rule mult_right_mono) simp
  with False show ?thesis by (simp add: binary64_def)
qed simp

lemma scaled_ge:
  assumes "x / quantum x \<le> of_int n" shows "binary64 x \<le> of_int n * quantum x \<or> x = 0"
proof (cases "x = 0")
  case False
  from assms have "roundHalfEven (x / quantum x) \<le> roundHalfEven (of_int n)"
    by (rule roundHalfEven_mono)
  then have "roundHalfEven (x / quantum x) \<le> n" by (simp only: roundHalfEven_of_int)
  then have "real_of_int (roundHalfEven (x / quantum x)) \<le> real_of_int n" by simp
  then have "real_of_int (roundHalfEven (x / quantum x)) * quantum x \<le> real_of_int n * quantum x"
    by (rule mult_right_mono) simp
  with False show ?thesis by (simp add: binary64_def)
qed simp

lemma binary64_le_next:
  assumes "0 < x" shows "binary64 x \<le> 2 powr (of_int (binade x) + 1)"
proof -
  have "x < 2 ^ 53 * quantum x"
    using below_next_binade [OF assms] unfolding powr_split quantum_binade .
  then have "x / quantum x \<le> of_int (2 ^ 53)"
    by (simp add: pos_divide_le_eq)
  from scaled_ge [OF this] assms
  have "binary64 x \<le> 2 ^ 53 * quantum x" by simp
  then show ?thesis unfolding powr_split quantum_binade .
qed

lemma binary64_ge_binade:
  assumes "0 < x" "- 1022 < binade x" shows "2 powr of_int (binade x) \<le> binary64 x"
proof -
  have "2 ^ 52 * quantum x \<le> x"
    using above_binade [OF assms] unfolding powr_split' [of "of_int (binade x)"] quantum_binade .
  then have "of_int (2 ^ 52) \<le> x / quantum x"
    by (simp add: pos_le_divide_eq)
  from scaled_le [OF this] assms
  have "2 ^ 52 * quantum x \<le> binary64 x" by simp
  then show ?thesis unfolding powr_split' [of "of_int (binade x)"] quantum_binade .
qed

lemma binary64_nonneg:
  assumes "0 \<le> x" shows "0 \<le> binary64 x"
proof -
  from assms have "of_int 0 \<le> x / quantum x" by simp
  from scaled_le [OF this] show ?thesis by auto
qed

lemma binary64_mono_pos:
  assumes "0 < x" "x \<le> y" shows "binary64 x \<le> binary64 y"
proof (cases "binade x = binade y")
  case True
  then have q: "quantum x = quantum y" by (simp add: quantum_binade)
  from assms(2) have "x / quantum y \<le> y / quantum y"
    by (rule divide_right_mono) simp
  then have "roundHalfEven (x / quantum y) \<le> roundHalfEven (y / quantum y)"
    by (rule roundHalfEven_mono)
  then have "real_of_int (roundHalfEven (x / quantum y)) \<le> real_of_int (roundHalfEven (y / quantum y))"
    by simp
  then have "real_of_int (roundHalfEven (x / quantum y)) * quantum y
               \<le> real_of_int (roundHalfEven (y / quantum y)) * quantum y"
    by (rule mult_right_mono) simp
  with assms show ?thesis by (simp add: binary64_def q)
next
  case False
  with binade_mono [OF assms] have lt: "binade x < binade y" by simp
  have "- 1022 \<le> binade x" by (simp add: binade_def)
  with lt have big: "- 1022 < binade y" by simp
  from assms have y: "0 < y" by simp
  have "binary64 x \<le> 2 powr (of_int (binade x) + 1)" by (rule binary64_le_next [OF assms(1)])
  also have "\<dots> \<le> 2 powr of_int (binade y)" using lt by simp
  also have "\<dots> \<le> binary64 y" by (rule binary64_ge_binade [OF y big])
  finally show ?thesis .
qed

lemma binary64_mono:
  assumes "x \<le> y" shows "binary64 x \<le> binary64 y"
proof -
  consider "0 < x" | "x \<le> 0" "0 \<le> y" | "y < 0" by linarith
  then show ?thesis
  proof cases
    case 1
    then show ?thesis using assms by (rule binary64_mono_pos)
  next
    case 2
    then have "0 \<le> binary64 (- x)" "0 \<le> binary64 y" by (simp_all add: binary64_nonneg)
    then show ?thesis by (simp add: binary64_minus)
  next
    case 3
    with assms have "0 < - y" "- y \<le> - x" by simp_all
    then have "binary64 (- y) \<le> binary64 (- x)" by (rule binary64_mono_pos)
    then show ?thesis by (simp add: binary64_minus)
  qed
qed

lemma binary64_le_double:
  assumes "0 \<le> x" shows "binary64 x \<le> 2 * x"
proof (cases "x = 0")
  case False
  with assms have x: "0 < x" by simp
  define t where "t = x / quantum x"
  from x have nn: "0 \<le> t" by (simp add: t_def)
  show ?thesis
  proof (cases "x / quantum x < 1 / 2")
    case True
    then have half: "t < 1 / 2" unfolding t_def .
    with nn have "\<lfloor>t\<rfloor> = 0" by (simp add: floor_eq_iff)
    then have "roundHalfEven t = 0"
      using half by (simp add: roundHalfEven_def)
    then show ?thesis using x by (simp add: binary64_def flip: t_def)
  next
    case False
    then have "\<not> t < 1 / 2" unfolding t_def .
    then have "t + 1 / 2 \<le> 2 * t" by simp
    with roundHalfEven_bounds(2) [of t]
    have "real_of_int (roundHalfEven t) \<le> 2 * t" by linarith
    then have a: "real_of_int (roundHalfEven t) * quantum x \<le> 2 * t * quantum x"
      by (rule mult_right_mono) simp
    have b: "2 * t * quantum x = 2 * x" by (simp add: t_def)
    have c: "binary64 x = real_of_int (roundHalfEven t) * quantum x"
      using x by (simp add: binary64_def t_def)
    from a show ?thesis unfolding b c .
  qed
qed simp

lemma binary64_scaled:
  assumes lo: "2 ^ 52 \<le> \<bar>x\<bar> * 2 ^ k" and hi: "\<bar>x\<bar> * 2 ^ k < 2 ^ 53" and k: "k \<le> 1074"
  shows "binary64 x = of_int (roundHalfEven (x * 2 ^ k)) / 2 ^ k"
proof -
  define e :: int where "e = 52 - int k"
  have p: "(2::real) powr (of_int e - 52) = 1 / 2 ^ k"
  proof -
    have "(2::real) powr (of_int e - 52) = 2 powr (- real k)"
      by (rule arg_cong [where f = "\<lambda>t. 2 powr t"]) (simp add: e_def)
    also have "\<dots> = 1 / 2 powr (real k)" by (simp add: powr_minus_divide)
    also have "(2::real) powr (real k) = 2 ^ k" by (simp add: powr_realpow)
    finally show ?thesis .
  qed
  have pe: "(2::real) powr of_int e = 2 ^ 52 / 2 ^ k"
    unfolding powr_split' [of "of_int e"] p by simp
  have pe1: "(2::real) powr (of_int e + 1) = 2 ^ 53 / 2 ^ k"
    unfolding powr_split [of "of_int e"] p by simp
  have x0: "0 < \<bar>x\<bar>"
  proof (rule ccontr)
    assume "\<not> 0 < \<bar>x\<bar>"
    then have "\<bar>x\<bar> = 0" by simp
    with lo show False by simp
  qed
  have "2 powr of_int e \<le> \<bar>x\<bar>" unfolding pe using lo by (simp add: pos_divide_le_eq)
  moreover have "\<bar>x\<bar> < 2 powr (of_int e + 1)" unfolding pe1 using hi by (simp add: pos_less_divide_eq)
  ultimately have "\<lfloor>log 2 \<bar>x\<bar>\<rfloor> = e"
    using floor_log_eq_powr_iff [of "\<bar>x\<bar>" 2 e] x0 by simp
  then have "binade x = e" using k by (simp add: binade_def e_def)
  then have q: "quantum x = 1 / 2 ^ k" by (simp only: quantum_binade p)
  from x0 have "x \<noteq> 0" by simp
  then show ?thesis by (simp add: binary64_def q)
qed


lemma binary64_error: "\<bar>binary64 y - y\<bar> \<le> quantum y / 2"
proof (cases "y = 0")
  case False
  define t where "t = y / quantum y"
  have y: "y = t * quantum y" by (simp add: t_def)
  have "\<bar>real_of_int (roundHalfEven t) - t\<bar> \<le> 1 / 2"
    using roundHalfEven_bounds [of t] by linarith
  then have "\<bar>real_of_int (roundHalfEven t) - t\<bar> * quantum y \<le> 1 / 2 * quantum y"
    by (rule mult_right_mono) simp
  moreover have "\<bar>real_of_int (roundHalfEven t) - t\<bar> * quantum y
                   = \<bar>real_of_int (roundHalfEven t) * quantum y - t * quantum y\<bar>"
    by (simp add: abs_mult flip: left_diff_distrib)
  moreover have "binary64 y = real_of_int (roundHalfEven t) * quantum y"
    using False by (simp add: binary64_def t_def)
  ultimately show ?thesis using y by simp
qed simp

lemma roundHalfEven_near:
  assumes "of_int n - 1 / 2 < y" "y < of_int n + 1 / 2"
  shows "roundHalfEven y = n"
proof -
  consider "of_int n \<le> y" | "y < of_int n" by linarith
  then show ?thesis
  proof cases
    case 1
    with assms have "\<lfloor>y\<rfloor> = n" by (intro floor_unique) linarith+
    with assms 1 show ?thesis by (simp add: roundHalfEven_def Let_def)
  next
    case 2
    with assms have f: "\<lfloor>y\<rfloor> = n - 1" by (intro floor_unique) (simp; linarith)+
    from assms 2 show ?thesis unfolding roundHalfEven_def Let_def f by simp
  qed
qed

lemma binary64_near:
  assumes "2 ^ 52 \<le> \<bar>x\<bar> * 2 ^ k" "\<bar>x\<bar> * 2 ^ k < 2 ^ 53" "k \<le> 1074"
    and "of_int n - 1 / 2 < x * 2 ^ k" "x * 2 ^ k < of_int n + 1 / 2"
  shows "binary64 x = of_int n / 2 ^ k"
  using binary64_scaled [OF assms(1-3)] roundHalfEven_near [OF assms(4,5)] by simp

section \<open>The frame callback: integration in binary64\<close>

lemma integrate64_targetVel:
  "targetVel (integrate64 s) =
     Vector3 (binary64 (clamp (vec_x (heldTarget64 s)) (- MAX_VELOCITY64) MAX_VELOCITY64 * binary64 0.9))
             (binary64 (clamp (vec_y (heldTarget64 s)) (- MAX_VELOCITY64) MAX_VELOCITY64 * binary64 0.9))
             (binary64 (clamp (vec_z (heldTarget64 s)) (- MAX_VELOCITY64) MAX_VELOCITY64 * binary64 0.9))"
  by (rule vec3.equality)
     (simp_all add: integrate64_def heldTarget64_def Vector3_def Let_def)

lemma integrate64_velocity:
  "velocity (integrate64 s) =
     Vector3 (lerp64 (vec_x (velocity s))
                (clamp (vec_x (heldTarget64 s)) (- MAX_VELOCITY64) MAX_VELOCITY64) (binary64 0.16))
             (lerp64 (vec_y (velocity s))
                (clamp (vec_y (heldTarget64 s)) (- MAX_VELOCITY64) MAX_VELOCITY64) (binary64 0.16))
             (lerp64 (vec_z (velocity s))
                (clamp (vec_z (heldTarget64 s)) (- MAX_VELOCITY64) MAX_VELOCITY64) (binary64 0.16))"
  by (rule vec3.equality)
     (simp_all add: integrate64_def heldTarget64_def Vector3_def Let_def)

lemma integrate64_cameraPosition:
  "cameraPosition (integrate64 s) =
     Vector3 (binary64 (vec_x (cameraPosition s) + vec_x (velocity (integrate64 s))))
             (binary64 (vec_y (cameraPosition s) + vec_y (velocity (integrate64 s))))
             (binary64 (vec_z (cameraPosition s) + vec_z (velocity (integrate64 s))))"
  by (rule vec3.equality)
     (simp_all add: integrate64_def Vector3_def Let_def)

lemma binary64_constants:
  "binary64 3.2 = 7205759403792794 / 2 ^ 51"
  "binary64 0.9 = 8106479329266893 / 2 ^ 53"
  "binary64 0.16 = 5764607523034235 / 2 ^ 55"
  "binary64 0.006 = 6917529027641082 / 2 ^ 60"
  using binary64_near [where x = "3.2" and k = 51 and n = 7205759403792794]
        binary64_near [where x = "0.9" and k = 53 and n = 8106479329266893]
        binary64_near [where x = "0.16" and k = 55 and n = 5764607523034235]
        binary64_near [where x = "0.006" and k = 60 and n = 6917529027641082]
  by simp_all

lemma MAX_VELOCITY64_value: "MAX_VELOCITY64 = 7205759403792794 / 2 ^ 51"
  by (simp only: MAX_VELOCITY64_def binary64_constants)

lemma MAX_VELOCITY64_fixed: "binary64 MAX_VELOCITY64 = MAX_VELOCITY64"
  unfolding MAX_VELOCITY64_value
  using binary64_near [where x = "7205759403792794 / 2 ^ 51" and k = 51 and n = 7205759403792794]
  by simp

lemma decayed_bound:
  "binary64 (MAX_VELOCITY64 * binary64 0.9) = 6485183463413515 / 2 ^ 51"
  unfolding MAX_VELOCITY64_value binary64_constants
  using binary64_near [where x = "7205759403792794 / 2 ^ 51 * (8106479329266893 / 2 ^ 53)"
          and k = 51 and n = 6485183463413515]
  by simp

lemma MAX_VELOCITY64_pos: "0 \<le> MAX_VELOCITY64"
  by (simp add: MAX_VELOCITY64_value)

lemma decay64_bound:
  assumes "\<bar>c\<bar> \<le> MAX_VELOCITY64"
  shows "\<bar>binary64 (c * binary64 0.9)\<bar> \<le> binary64 (MAX_VELOCITY64 * binary64 0.9)"
proof -
  have d: "0 \<le> binary64 0.9" unfolding binary64_constants by simp
  from assms have c: "c \<le> MAX_VELOCITY64" "- MAX_VELOCITY64 \<le> c" by (simp_all add: abs_le_iff)
  have hi: "c * binary64 0.9 \<le> MAX_VELOCITY64 * binary64 0.9"
    by (rule mult_right_mono [OF c(1) d])
  have "- MAX_VELOCITY64 * binary64 0.9 \<le> c * binary64 0.9"
    by (rule mult_right_mono [OF c(2) d])
  then have lo: "- (MAX_VELOCITY64 * binary64 0.9) \<le> c * binary64 0.9"
    by (simp only: mult_minus_left)
  have "binary64 (c * binary64 0.9) \<le> binary64 (MAX_VELOCITY64 * binary64 0.9)"
    using hi by (rule binary64_mono)
  moreover have "binary64 (- (MAX_VELOCITY64 * binary64 0.9)) \<le> binary64 (c * binary64 0.9)"
    using lo by (rule binary64_mono)
  ultimately show ?thesis by (simp only: binary64_minus abs_le_iff) simp
qed

lemma lerp64_upper:
  assumes v: "v \<le> MAX_VELOCITY64" and c: "c \<le> MAX_VELOCITY64"
  shows "lerp64 v c (binary64 0.16) \<le> MAX_VELOCITY64"
proof -
  define t where "t = binary64 0.16"
  have t: "0 \<le> t" "4 * t \<le> 1" unfolding t_def binary64_constants by simp_all
  define D where "D = MAX_VELOCITY64 - v"
  have D: "0 \<le> D" using v by (simp add: D_def)
  have "c - v \<le> D" using c by (simp add: D_def)
  then have "binary64 (c - v) \<le> binary64 D" by (rule binary64_mono)
  also have "\<dots> \<le> 2 * D" by (rule binary64_le_double [OF D])
  finally have "binary64 (c - v) * t \<le> 2 * D * t" using t(1) by (rule mult_right_mono)
  then have "binary64 (binary64 (c - v) * t) \<le> binary64 (2 * D * t)" by (rule binary64_mono)
  also have "\<dots> \<le> 2 * (2 * D * t)"
    by (rule binary64_le_double) (use D t in simp)
  also have "\<dots> = D * (4 * t)" by simp
  also have "\<dots> \<le> D * 1" using t(2) D by (rule mult_left_mono)
  finally have "v + binary64 (binary64 (c - v) * t) \<le> MAX_VELOCITY64" by (simp add: D_def)
  then have "binary64 (v + binary64 (binary64 (c - v) * t)) \<le> binary64 MAX_VELOCITY64"
    by (rule binary64_mono)
  then show ?thesis by (simp only: lerp64_def t_def MAX_VELOCITY64_fixed)
qed

lemma lerp64_minus: "lerp64 (- v) (- c) t = - lerp64 v c t"
proof -
  have "- c - - v = - (c - v)" by simp
  then have a: "binary64 (- c - - v) = - binary64 (c - v)" by (simp only: binary64_minus)
  have b: "binary64 (- binary64 (c - v) * t) = - binary64 (binary64 (c - v) * t)"
    by (simp only: mult_minus_left binary64_minus)
  have "- v + - binary64 (binary64 (c - v) * t) = - (v + binary64 (binary64 (c - v) * t))"
    by simp
  then have "binary64 (- v + - binary64 (binary64 (c - v) * t))
               = - binary64 (v + binary64 (binary64 (c - v) * t))"
    by (simp only: binary64_minus)
  then show ?thesis by (simp only: lerp64_def a b)
qed

lemma lerp64_bound:
  assumes "\<bar>v\<bar> \<le> MAX_VELOCITY64" "\<bar>c\<bar> \<le> MAX_VELOCITY64"
  shows "\<bar>lerp64 v c (binary64 0.16)\<bar> \<le> MAX_VELOCITY64"
proof -
  from assms have b: "v \<le> MAX_VELOCITY64" "c \<le> MAX_VELOCITY64"
    "- v \<le> MAX_VELOCITY64" "- c \<le> MAX_VELOCITY64"
    by (simp_all add: abs_le_iff)
  have "lerp64 v c (binary64 0.16) \<le> MAX_VELOCITY64"
    by (rule lerp64_upper [OF b(1,2)])
  moreover have "lerp64 (- v) (- c) (binary64 0.16) \<le> MAX_VELOCITY64"
    by (rule lerp64_upper [OF b(3,4)])
  ultimately show ?thesis by (simp only: lerp64_minus abs_le_iff)
qed

lemma clamp64_abs: "\<bar>clamp v (- MAX_VELOCITY64) MAX_VELOCITY64\<bar> \<le> MAX_VELOCITY64"
  by (rule clamp_abs [OF MAX_VELOCITY64_pos])

lemma integrate64_camera_axes:
  "vec_x (cameraPosition (integrate64 s))
     = binary64 (vec_x (cameraPosition s) + vec_x (velocity (integrate64 s)))"
  "vec_y (cameraPosition (integrate64 s))
     = binary64 (vec_y (cameraPosition s) + vec_y (velocity (integrate64 s)))"
  "vec_z (cameraPosition (integrate64 s))
     = binary64 (vec_z (cameraPosition s) + vec_z (velocity (integrate64 s)))"
  by (simp_all add: integrate64_cameraPosition [of s] Vector3_def)

lemma rounded_sum_close: "\<bar>binary64 (p + v) - p\<bar> \<le> \<bar>v\<bar> + quantum (p + v) / 2"
  using binary64_error [of "p + v"] by linarith

lemma dispatch64_fields:
  "velocity (dispatch64 e s) = velocity s"
  "cameraPosition (dispatch64 e s) = cameraPosition s"
  by (cases e; simp add: onKeyDown_def onKeyUp_def onMouseDown_def onMouseUp_def
        onMouseMove64_def onWheel64_def onTouchStart64_def onTouchMove64_def onTouchEnd64_def
        Let_def split: list.splits)+

lemma run64_snoc: "run64 (steps @ [a]) = step64 a (run64 steps)"
  by (simp add: run64_def)

lemma integrate64_velocity_axes:
  "vec_x (velocity (integrate64 s))
     = lerp64 (vec_x (velocity s))
         (clamp (vec_x (heldTarget64 s)) (- MAX_VELOCITY64) MAX_VELOCITY64) (binary64 0.16)"
  "vec_y (velocity (integrate64 s))
     = lerp64 (vec_y (velocity s))
         (clamp (vec_y (heldTarget64 s)) (- MAX_VELOCITY64) MAX_VELOCITY64) (binary64 0.16)"
  "vec_z (velocity (integrate64 s))
     = lerp64 (vec_z (velocity s))
         (clamp (vec_z (heldTarget64 s)) (- MAX_VELOCITY64) MAX_VELOCITY64) (binary64 0.16)"
  by (simp_all only: integrate64_velocity Vector3_def vec3.simps)

lemma run64_velocity_bounds:
  "\<bar>vec_x (velocity (run64 steps))\<bar> \<le> MAX_VELOCITY64 \<and>
   \<bar>vec_y (velocity (run64 steps))\<bar> \<le> MAX_VELOCITY64 \<and>
   \<bar>vec_z (velocity (run64 steps))\<bar> \<le> MAX_VELOCITY64"
proof (induction steps rule: rev_induct)
  case Nil
  show ?case
    by (simp add: run64_def initialController_def Vector3_def MAX_VELOCITY64_pos)
next
  case (snoc a steps)
  show ?case
  proof (cases a)
    case (Input e)
    with snoc show ?thesis by (simp only: run64_snoc step64.simps dispatch64_fields)
  next
    case Frame
    from snoc have v: "\<bar>vec_x (velocity (run64 steps))\<bar> \<le> MAX_VELOCITY64"
      "\<bar>vec_y (velocity (run64 steps))\<bar> \<le> MAX_VELOCITY64"
      "\<bar>vec_z (velocity (run64 steps))\<bar> \<le> MAX_VELOCITY64"
      by blast+
    show ?thesis
      unfolding Frame run64_snoc step64.simps integrate64_velocity_axes
      by (intro conjI lerp64_bound v clamp64_abs)
  qed
qed

lemma run64_camera_close:
  "\<bar>vec_x (cameraPosition (integrate64 (run64 steps))) - vec_x (cameraPosition (run64 steps))\<bar>
     \<le> MAX_VELOCITY64
         + quantum (vec_x (cameraPosition (run64 steps))
                      + vec_x (velocity (integrate64 (run64 steps)))) / 2"
  "\<bar>vec_y (cameraPosition (integrate64 (run64 steps))) - vec_y (cameraPosition (run64 steps))\<bar>
     \<le> MAX_VELOCITY64
         + quantum (vec_y (cameraPosition (run64 steps))
                      + vec_y (velocity (integrate64 (run64 steps)))) / 2"
  "\<bar>vec_z (cameraPosition (integrate64 (run64 steps))) - vec_z (cameraPosition (run64 steps))\<bar>
     \<le> MAX_VELOCITY64
         + quantum (vec_z (cameraPosition (run64 steps))
                      + vec_z (velocity (integrate64 (run64 steps)))) / 2"
proof -
  note rv = run64_velocity_bounds [of "steps @ [Frame]"]
  have nv: "\<bar>vec_x (velocity (integrate64 (run64 steps)))\<bar> \<le> MAX_VELOCITY64"
    "\<bar>vec_y (velocity (integrate64 (run64 steps)))\<bar> \<le> MAX_VELOCITY64"
    "\<bar>vec_z (velocity (integrate64 (run64 steps)))\<bar> \<le> MAX_VELOCITY64"
    using rv by (simp_all only: run64_snoc step64.simps)
  show
    "\<bar>vec_x (cameraPosition (integrate64 (run64 steps))) - vec_x (cameraPosition (run64 steps))\<bar>
       \<le> MAX_VELOCITY64
           + quantum (vec_x (cameraPosition (run64 steps))
                        + vec_x (velocity (integrate64 (run64 steps)))) / 2"
    unfolding integrate64_camera_axes
    using rounded_sum_close [of "vec_x (cameraPosition (run64 steps))"
            "vec_x (velocity (integrate64 (run64 steps)))"] nv(1)
    by linarith
  show
    "\<bar>vec_y (cameraPosition (integrate64 (run64 steps))) - vec_y (cameraPosition (run64 steps))\<bar>
       \<le> MAX_VELOCITY64
           + quantum (vec_y (cameraPosition (run64 steps))
                        + vec_y (velocity (integrate64 (run64 steps)))) / 2"
    unfolding integrate64_camera_axes
    using rounded_sum_close [of "vec_y (cameraPosition (run64 steps))"
            "vec_y (velocity (integrate64 (run64 steps)))"] nv(2)
    by linarith
  show
    "\<bar>vec_z (cameraPosition (integrate64 (run64 steps))) - vec_z (cameraPosition (run64 steps))\<bar>
       \<le> MAX_VELOCITY64
           + quantum (vec_z (cameraPosition (run64 steps))
                        + vec_z (velocity (integrate64 (run64 steps)))) / 2"
    unfolding integrate64_camera_axes
    using rounded_sum_close [of "vec_z (cameraPosition (run64 steps))"
            "vec_z (velocity (integrate64 (run64 steps)))"] nv(3)
    by linarith
qed

lemma target_bound_exact:
  "\<bar>vec_x (targetVel (useFrame s))\<bar> \<le> 2.88" "\<bar>vec_y (targetVel (useFrame s))\<bar> \<le> 2.88"
  "\<bar>vec_z (targetVel (useFrame s))\<bar> \<le> 2.88"
  unfolding useFrame_axes using clampedTarget_bounds [of s] by (simp_all add: abs_mult)

text \<open>
  Claim C10 (bounded motion), as amended. The claim as stated fails in the arithmetic the
  code runs in: the product of 3.2 and 0.9 rounds to \<open>6485183463413515 / 2\<^sup>5\<^sup>1\<close>, which is
  2.8800000000000003, one unit in the last place above 2.88, and a frame that hits the clamp
  leaves the target there. What holds in binary64: after a frame, from any state, each
  axis of the target velocity is at most that rounded product in absolute value; an axis
  of velocity that enters a frame within 3.2 (the binary64 number) leaves it within 3.2,
  so along every run from the mounted state (velocity zero, any events and frames) the
  velocity stays within 3.2 and a frame moves the camera on each axis by at most 3.2 plus
  the rounding of the position sum, half the spacing of binary64 numbers there. In exact
  arithmetic: an axis of velocity that enters a frame within 3.2 leaves it within 3.2, and
  along every run from the mounted state a frame moves the camera by at most 3.2 on each
  axis.
\<close>

theorem bounded_motion:
  "\<bar>vec_x (targetVel (integrate64 s))\<bar> \<le> binary64 (MAX_VELOCITY64 * binary64 0.9) \<and>
   \<bar>vec_y (targetVel (integrate64 s))\<bar> \<le> binary64 (MAX_VELOCITY64 * binary64 0.9) \<and>
   \<bar>vec_z (targetVel (integrate64 s))\<bar> \<le> binary64 (MAX_VELOCITY64 * binary64 0.9) \<and>
   binary64 (MAX_VELOCITY64 * binary64 0.9) = 6485183463413515 / 2 ^ 51 \<and>
   MAX_VELOCITY64 = 7205759403792794 / 2 ^ 51 \<and>
   (\<bar>vec_x (velocity s)\<bar> \<le> MAX_VELOCITY64
      \<longrightarrow> \<bar>vec_x (velocity (integrate64 s))\<bar> \<le> MAX_VELOCITY64) \<and>
   (\<bar>vec_y (velocity s)\<bar> \<le> MAX_VELOCITY64
      \<longrightarrow> \<bar>vec_y (velocity (integrate64 s))\<bar> \<le> MAX_VELOCITY64) \<and>
   (\<bar>vec_z (velocity s)\<bar> \<le> MAX_VELOCITY64
      \<longrightarrow> \<bar>vec_z (velocity (integrate64 s))\<bar> \<le> MAX_VELOCITY64) \<and>
   \<bar>vec_x (velocity (run64 steps))\<bar> \<le> MAX_VELOCITY64 \<and>
   \<bar>vec_y (velocity (run64 steps))\<bar> \<le> MAX_VELOCITY64 \<and>
   \<bar>vec_z (velocity (run64 steps))\<bar> \<le> MAX_VELOCITY64 \<and>
   \<bar>vec_x (cameraPosition (integrate64 (run64 steps))) - vec_x (cameraPosition (run64 steps))\<bar>
     \<le> MAX_VELOCITY64
         + quantum (vec_x (cameraPosition (run64 steps))
                      + vec_x (velocity (integrate64 (run64 steps)))) / 2 \<and>
   \<bar>vec_y (cameraPosition (integrate64 (run64 steps))) - vec_y (cameraPosition (run64 steps))\<bar>
     \<le> MAX_VELOCITY64
         + quantum (vec_y (cameraPosition (run64 steps))
                      + vec_y (velocity (integrate64 (run64 steps)))) / 2 \<and>
   \<bar>vec_z (cameraPosition (integrate64 (run64 steps))) - vec_z (cameraPosition (run64 steps))\<bar>
     \<le> MAX_VELOCITY64
         + quantum (vec_z (cameraPosition (run64 steps))
                      + vec_z (velocity (integrate64 (run64 steps)))) / 2 \<and>
   (\<bar>vec_x (velocity s)\<bar> \<le> 3.2 \<longrightarrow> \<bar>vec_x (velocity (useFrame s))\<bar> \<le> 3.2) \<and>
   (\<bar>vec_y (velocity s)\<bar> \<le> 3.2 \<longrightarrow> \<bar>vec_y (velocity (useFrame s))\<bar> \<le> 3.2) \<and>
   (\<bar>vec_z (velocity s)\<bar> \<le> 3.2 \<longrightarrow> \<bar>vec_z (velocity (useFrame s))\<bar> \<le> 3.2) \<and>
   \<bar>vec_x (cameraPosition (useFrame (run steps))) - vec_x (cameraPosition (run steps))\<bar> \<le> 3.2 \<and>
   \<bar>vec_y (cameraPosition (useFrame (run steps))) - vec_y (cameraPosition (run steps))\<bar> \<le> 3.2 \<and>
   \<bar>vec_z (cameraPosition (useFrame (run steps))) - vec_z (cameraPosition (run steps))\<bar> \<le> 3.2"
proof -
  have tv: "\<bar>vec_x (targetVel (integrate64 s))\<bar> \<le> binary64 (MAX_VELOCITY64 * binary64 0.9)"
    "\<bar>vec_y (targetVel (integrate64 s))\<bar> \<le> binary64 (MAX_VELOCITY64 * binary64 0.9)"
    "\<bar>vec_z (targetVel (integrate64 s))\<bar> \<le> binary64 (MAX_VELOCITY64 * binary64 0.9)"
    unfolding integrate64_targetVel Vector3_def vec3.simps
    by (rule decay64_bound [OF clamp64_abs])+
  have v64: "\<bar>vec_x (velocity s)\<bar> \<le> MAX_VELOCITY64
               \<longrightarrow> \<bar>vec_x (velocity (integrate64 s))\<bar> \<le> MAX_VELOCITY64"
    "\<bar>vec_y (velocity s)\<bar> \<le> MAX_VELOCITY64
       \<longrightarrow> \<bar>vec_y (velocity (integrate64 s))\<bar> \<le> MAX_VELOCITY64"
    "\<bar>vec_z (velocity s)\<bar> \<le> MAX_VELOCITY64
       \<longrightarrow> \<bar>vec_z (velocity (integrate64 s))\<bar> \<le> MAX_VELOCITY64"
    unfolding integrate64_velocity Vector3_def vec3.simps
    by (intro impI lerp64_bound clamp64_abs; assumption)+
  note r64 = run64_velocity_bounds [of steps]
  note c64 = run64_camera_close [of steps]
  note ct = clampedTarget_bounds [of s]
  have v: "\<bar>vec_x (velocity s)\<bar> \<le> 3.2 \<longrightarrow> \<bar>vec_x (velocity (useFrame s))\<bar> \<le> 3.2"
    "\<bar>vec_y (velocity s)\<bar> \<le> 3.2 \<longrightarrow> \<bar>vec_y (velocity (useFrame s))\<bar> \<le> 3.2"
    "\<bar>vec_z (velocity s)\<bar> \<le> 3.2 \<longrightarrow> \<bar>vec_z (velocity (useFrame s))\<bar> \<le> 3.2"
    unfolding useFrame_axes by (intro impI lerp_convex ct; assumption)+
  note c = run_camera_close [of steps]
  from tv decayed_bound MAX_VELOCITY64_value v64 r64 c64 v c show ?thesis by blast
qed

lemma after_wheel64:
  "onWheel64 1000 initialController = initialController\<lparr>scrollAccum := 6\<rparr>"
proof -
  have "binary64 (1000 * (6917529027641082 / 2 ^ 60)) = 6755399441055744 / 2 ^ 50"
    using binary64_near [where x = "1000 * (6917529027641082 / 2 ^ 60)" and k = 50
            and n = 6755399441055744]
    by simp
  also have "\<dots> = (6::real)" by simp
  finally have a: "binary64 (1000 * binary64 0.006) = 6" by (simp only: binary64_constants)
  have b: "binary64 6 = 6"
    using binary64_near [where x = 6 and k = 50 and n = 6755399441055744] by simp
  have s0: "scrollAccum initialController = 0"
    by (simp add: initialController_def)
  show ?thesis
    unfolding onWheel64_def s0 a by (simp add: b)
qed

text \<open>
  The claim as stated, at one wheel event of 1000 from the mounted state, then a frame: the
  accumulator holds 6, the clamp cuts the target to 3.2, and the decay leaves
  \<open>6485183463413515 / 2\<^sup>5\<^sup>1\<close>, above 2.88 and above the binary64 number nearest to 2.88.
\<close>

theorem bounded_motion_counterexample:
  "vec_z (targetVel (run64 [Input (Wheel 1000), Frame])) = 6485183463413515 / 2 ^ 51 \<and>
   binary64 2.88 = 6485183463413514 / 2 ^ 51 \<and>
   \<not> \<bar>vec_z (targetVel (run64 [Input (Wheel 1000), Frame]))\<bar> \<le> 2.88"
proof -
  have r: "run64 [Input (Wheel 1000), Frame] = integrate64 (onWheel64 1000 initialController)"
    by (simp add: run64_def)
  have b: "binary64 6 = 6"
    using binary64_near [where x = 6 and k = 50 and n = 6755399441055744] by simp
  have h: "vec_z (heldTarget64 (initialController\<lparr>scrollAccum := 6\<rparr>)) = 6"
    by (simp add: heldTarget64_def initialController_def Vector3_def b)
  have c: "clamp 6 (- MAX_VELOCITY64) MAX_VELOCITY64 = MAX_VELOCITY64"
    by (simp add: clamp_def MAX_VELOCITY64_value)
  have z: "vec_z (targetVel (run64 [Input (Wheel 1000), Frame])) = 6485183463413515 / 2 ^ 51"
    by (simp only: r after_wheel64 integrate64_targetVel Vector3_def vec3.simps h c
          decayed_bound)
  have n: "binary64 2.88 = 6485183463413514 / 2 ^ 51"
    using binary64_near [where x = "2.88" and k = 51 and n = 6485183463413514] by simp
  have "\<not> \<bar>6485183463413515 / 2 ^ 51 :: real\<bar> \<le> 2.88" by simp
  with z n show ?thesis by (simp only:) simp
qed

text \<open>
  The rounding of the position sum can carry the camera further than the velocity: with
  the velocity within 3.2 before and after the frame, the camera moves by
  \<open>28147497671066 / 2\<^sup>4\<^sup>3\<close>, which is 3.2000000000000455.
\<close>

lemma camera_step_rounds_up:
  "\<bar>vec_z (velocity heldForward)\<bar> \<le> MAX_VELOCITY64 \<and>
   \<bar>vec_z (velocity (integrate64 heldForward))\<bar> \<le> MAX_VELOCITY64 \<and>
   vec_z (cameraPosition (integrate64 heldForward)) - vec_z (cameraPosition heldForward)
     = - (28147497671066 / 2 ^ 43) \<and>
   MAX_VELOCITY64 < 28147497671066 / 2 ^ 43"
proof -
  have c18: "binary64 0.18 = 6485183463413514 / 2 ^ 55"
    using binary64_near [where x = "0.18" and k = 55 and n = "6485183463413514"]
    by simp
  have k15: "binary64 1.5 = 6755399441055744 / 2 ^ 52"
    using binary64_near [where x = "1.5" and k = 52 and n = "6755399441055744"]
    by simp
  have "roundHalfEven (6485183463413514 / 2 ^ 55 * (6755399441055744 / 2 ^ 52) * 2 ^ 54)
          = 4863887597560136"
    by (simp add: roundHalfEven_def)
  then have c27: "binary64 (6485183463413514 / 2 ^ 55 * (6755399441055744 / 2 ^ 52)) = 4863887597560136 / 2 ^ 54"
    using binary64_scaled [where x = "6485183463413514 / 2 ^ 55 * (6755399441055744 / 2 ^ 52)" and k = 54]
    by simp
  have t1: "binary64 (- (6485183463413515 / 2 ^ 51) - 6485183463413514 / 2 ^ 55) = - (6890507429876860 / 2 ^ 51)"
    using binary64_near [where x = "- (6485183463413515 / 2 ^ 51) - 6485183463413514 / 2 ^ 55" and k = 51 and n = "- 6890507429876860"]
    by simp
  have t2: "binary64 (- (6890507429876860 / 2 ^ 51) - 4863887597560136 / 2 ^ 54) = - (7498493379571877 / 2 ^ 51)"
    using binary64_near [where x = "- (6890507429876860 / 2 ^ 51) - 4863887597560136 / 2 ^ 54" and k = 51 and n = "- 7498493379571877"]
    by simp
  have t3: "binary64 (- (7498493379571877 / 2 ^ 51) + 0) = - (7498493379571877 / 2 ^ 51)"
    using binary64_near [where x = "- (7498493379571877 / 2 ^ 51) + 0" and k = 51 and n = "- 7498493379571877"]
    by simp
  have dd: "binary64 (- (7205759403792794 / 2 ^ 51) - - (7205759403792764 / 2 ^ 51)) = - (8444249301319680 / 2 ^ 99)"
    using binary64_near [where x = "- (7205759403792794 / 2 ^ 51) - - (7205759403792764 / 2 ^ 51)" and k = 99 and n = "- 8444249301319680"]
    by simp
  have ee: "binary64 (- (8444249301319680 / 2 ^ 99) * (5764607523034235 / 2 ^ 55)) = - (5404319552844595 / 2 ^ 101)"
    using binary64_near [where x = "- (8444249301319680 / 2 ^ 99) * (5764607523034235 / 2 ^ 55)" and k = 101 and n = "- 5404319552844595"]
    by simp
  have vv: "binary64 (- (7205759403792764 / 2 ^ 51) + - (5404319552844595 / 2 ^ 101)) = - (7205759403792769 / 2 ^ 51)"
    using binary64_near [where x = "- (7205759403792764 / 2 ^ 51) + - (5404319552844595 / 2 ^ 101)" and k = 51 and n = "- 7205759403792769"]
    by simp
  have pp: "binary64 (- (4782517836172213 / 2 ^ 43) + - (7205759403792769 / 2 ^ 51)) = - (4810665333843279 / 2 ^ 43)"
    using binary64_near [where x = "- (4782517836172213 / 2 ^ 43) + - (7205759403792769 / 2 ^ 51)" and k = 43 and n = "- 4810665333843279"]
    by simp
  have h: "vec_z (heldTarget64 heldForward)
             = binary64 (binary64 (binary64 (- (6485183463413515 / 2 ^ 51) - binary64 0.18)
                 - binary64 (binary64 0.18 * binary64 1.5)) + 0)"
    by (simp add: heldTarget64_def heldForward_def initialController_def Vector3_def Let_def)
  have h': "vec_z (heldTarget64 heldForward) = - (7498493379571877 / 2 ^ 51)"
    unfolding h c18 k15 c27 t1 t2 t3 by (rule refl)
  have c: "clamp (- (7498493379571877 / 2 ^ 51)) (- (7205759403792794 / 2 ^ 51)) (7205759403792794 / 2 ^ 51)
             = - (7205759403792794 / 2 ^ 51)"
    by (simp add: clamp_def)
  have vz: "vec_z (velocity heldForward) = - (7205759403792764 / 2 ^ 51)"
    and pz: "vec_z (cameraPosition heldForward) = - (4782517836172213 / 2 ^ 43)"
    by (simp_all add: heldForward_def initialController_def Vector3_def)
  have v: "vec_z (velocity (integrate64 heldForward)) = - (7205759403792769 / 2 ^ 51)"
    unfolding integrate64_velocity Vector3_def vec3.simps h' vz lerp64_def
      MAX_VELOCITY64_value binary64_constants c dd ee vv
    by (rule refl)
  have p: "vec_z (cameraPosition (integrate64 heldForward)) = - (4810665333843279 / 2 ^ 43)"
    unfolding integrate64_camera_axes v pz pp by (rule refl)
  show ?thesis
    unfolding p v vz pz MAX_VELOCITY64_value by simp
qed

theorem bounded_motion_witness:
  "\<bar>vec_z (velocity initialController)\<bar> \<le> MAX_VELOCITY64 \<and>
   \<bar>vec_z (velocity (integrate64 initialController))\<bar> \<le> MAX_VELOCITY64 \<and>
   \<bar>vec_z (targetVel (integrate64 initialController))\<bar> \<le> 6485183463413515 / 2 ^ 51 \<and>
   \<bar>vec_z (velocity (run64 [Input (Wheel 100), Frame]))\<bar> \<le> MAX_VELOCITY64 \<and>
   \<bar>vec_z (velocity initialController)\<bar> \<le> 3.2 \<and>
   \<bar>vec_z (velocity (useFrame initialController))\<bar> \<le> 3.2 \<and>
   \<bar>vec_z (cameraPosition (useFrame (run [Input (Wheel 100), Frame])))
      - vec_z (cameraPosition (run [Input (Wheel 100), Frame]))\<bar> \<le> 3.2"
proof -
  have h: "\<bar>vec_z (velocity initialController)\<bar> \<le> 3.2"
    by (simp add: initialController_def Vector3_def)
  have h64: "\<bar>vec_z (velocity initialController)\<bar> \<le> MAX_VELOCITY64"
    by (simp add: initialController_def Vector3_def MAX_VELOCITY64_value)
  note bm = bounded_motion [of initialController "[Input (Wheel 100), Frame]"]
  from bm have t: "\<bar>vec_z (targetVel (integrate64 initialController))\<bar>
                     \<le> binary64 (MAX_VELOCITY64 * binary64 0.9)"
    and e: "binary64 (MAX_VELOCITY64 * binary64 0.9) = 6485183463413515 / 2 ^ 51"
    and i64: "\<bar>vec_z (velocity initialController)\<bar> \<le> MAX_VELOCITY64
                \<longrightarrow> \<bar>vec_z (velocity (integrate64 initialController))\<bar> \<le> MAX_VELOCITY64"
    and r64: "\<bar>vec_z (velocity (run64 [Input (Wheel 100), Frame]))\<bar> \<le> MAX_VELOCITY64"
    and i: "\<bar>vec_z (velocity initialController)\<bar> \<le> 3.2
              \<longrightarrow> \<bar>vec_z (velocity (useFrame initialController))\<bar> \<le> 3.2"
    and c: "\<bar>vec_z (cameraPosition (useFrame (run [Input (Wheel 100), Frame])))
              - vec_z (cameraPosition (run [Input (Wheel 100), Frame]))\<bar> \<le> 3.2"
    by blast+
  from t have t': "\<bar>vec_z (targetVel (integrate64 initialController))\<bar>
                     \<le> 6485183463413515 / 2 ^ 51"
    unfolding e .
  from i64 h64 i h c t' r64 show ?thesis by (intro conjI) (assumption | rule mp)+
qed

section \<open>Pinch zoom\<close>

lemma clamp_pos: "0 < v \<Longrightarrow> 0 < clamp v (- 3.2) 3.2"
  by (simp add: clamp_def)

lemma clamp_neg: "v < 0 \<Longrightarrow> clamp v (- 3.2) 3.2 < 0"
  by (simp add: clamp_def)

lemma onTouchMove_pinch:
  assumes "length touches = 2"
  shows "scrollAccum (onTouchMove touches s) =
           (if 0 < lastTouchDist s
            then scrollAccum s + (lastTouchDist s - getTouchDistance touches) * 0.006
            else scrollAccum s)"
    and "targetVel (onTouchMove touches s) = targetVel s"
    and "velocity (onTouchMove touches s) = velocity s"
    and "keys (onTouchMove touches s) = keys s"
    and "cameraPosition (onTouchMove touches s) = cameraPosition s"
  using assms by (simp_all add: onTouchMove_def Let_def)

lemma toLowerCase_w: "toLowerCase ''w'' = ''w''" "toLowerCase ''s'' = ''s''"
  by (simp_all add: toLowerCase_def)

lemma rest_frame_z:
  assumes "targetVel s = Vector3 0 0 0" "velocity s = Vector3 0 0 0"
  shows "vec_z (targetVel (useFrame s))
           = 0.9 * clamp (vec_z (heldIncrement (keys s)) + scrollAccum s) (- 3.2) 3.2"
    and "vec_z (cameraPosition (useFrame s)) - vec_z (cameraPosition s)
           = 0.16 * clamp (vec_z (heldIncrement (keys s)) + scrollAccum s) (- 3.2) 3.2"
  using assms
  by (simp_all add: useFrame_axes clampedTarget_def Vector3_def lerp_def)

lemma pinch_from_rest:
  assumes rest: "targetVel s = Vector3 0 0 0" "velocity s = Vector3 0 0 0"
                "scrollAccum s = 0" "keys s = {}"
    and two: "length touches = 2"
    and last: "0 < lastTouchDist s"
  shows "scrollAccum (onTouchMove touches s)
           = (lastTouchDist s - getTouchDistance touches) * 0.006 \<and>
         (getTouchDistance touches < lastTouchDist s \<longrightarrow>
            0 < vec_z (targetVel (useFrame (onTouchMove touches s))) \<and>
            vec_z (cameraPosition s) < vec_z (cameraPosition (useFrame (onTouchMove touches s)))) \<and>
         (lastTouchDist s < getTouchDistance touches \<longrightarrow>
            vec_z (targetVel (useFrame (onTouchMove touches s))) < 0 \<and>
            vec_z (cameraPosition (useFrame (onTouchMove touches s))) < vec_z (cameraPosition s)) \<and>
         vec_z (targetVel (useFrame (onKeyDown ''w'' s))) < 0 \<and>
         vec_z (cameraPosition (useFrame (onKeyDown ''w'' s))) < vec_z (cameraPosition s) \<and>
         0 < vec_z (targetVel (useFrame (onKeyDown ''s'' s))) \<and>
         vec_z (cameraPosition s) < vec_z (cameraPosition (useFrame (onKeyDown ''s'' s)))"
proof -
  let ?p = "onTouchMove touches s"
  let ?a = "(lastTouchDist s - getTouchDistance touches) * 0.006"
  note pm = onTouchMove_pinch [OF two, of s]
  have acc: "scrollAccum ?p = ?a"
    using last rest(3) by (simp add: pm)
  have prest: "targetVel ?p = Vector3 0 0 0" "velocity ?p = Vector3 0 0 0"
    using rest by (simp_all add: pm)
  have kz: "vec_z (heldIncrement (keys ?p)) = 0"
    using rest(4) by (simp add: pm heldIncrement_def Vector3_def)
  note fz = rest_frame_z [OF prest]
  have pin: "0 < vec_z (targetVel (useFrame ?p)) \<and>
             vec_z (cameraPosition s) < vec_z (cameraPosition (useFrame ?p))"
    if "getTouchDistance touches < lastTouchDist s"
  proof -
    from that have "0 < ?a" by simp
    then have "0 < clamp ?a (- 3.2) 3.2" by (rule clamp_pos)
    with fz kz acc pm(5) show ?thesis by simp
  qed
  have pout: "vec_z (targetVel (useFrame ?p)) < 0 \<and>
              vec_z (cameraPosition (useFrame ?p)) < vec_z (cameraPosition s)"
    if "lastTouchDist s < getTouchDistance touches"
  proof -
    from that have "?a < 0" by simp
    then have "clamp ?a (- 3.2) 3.2 < 0" by (rule clamp_neg)
    with fz kz acc pm(5) show ?thesis by simp
  qed
  have wrest: "targetVel (onKeyDown ''w'' s) = Vector3 0 0 0"
      "velocity (onKeyDown ''w'' s) = Vector3 0 0 0"
    and srest: "targetVel (onKeyDown ''s'' s) = Vector3 0 0 0"
      "velocity (onKeyDown ''s'' s) = Vector3 0 0 0"
    using rest by (simp_all add: onKeyDown_def)
  have wk: "vec_z (heldIncrement (keys (onKeyDown ''w'' s))) + scrollAccum (onKeyDown ''w'' s) = - 0.18"
    and sk: "vec_z (heldIncrement (keys (onKeyDown ''s'' s))) + scrollAccum (onKeyDown ''s'' s) = 0.18"
    using rest(3,4) by (simp_all add: onKeyDown_def toLowerCase_w heldIncrement_def Vector3_def)
  have cw: "clamp (- 0.18) (- 3.2) 3.2 < 0" by (rule clamp_neg) simp
  have cs: "0 < clamp 0.18 (- 3.2) 3.2" by (rule clamp_pos) simp
  have w: "vec_z (targetVel (useFrame (onKeyDown ''w'' s))) < 0"
      "vec_z (cameraPosition (useFrame (onKeyDown ''w'' s))) < vec_z (cameraPosition s)"
    using rest_frame_z [OF wrest] cw unfolding wk by (simp_all add: onKeyDown_def)
  have s: "0 < vec_z (targetVel (useFrame (onKeyDown ''s'' s)))"
      "vec_z (cameraPosition s) < vec_z (cameraPosition (useFrame (onKeyDown ''s'' s)))"
    using rest_frame_z [OF srest] cs unfolding sk by (simp_all add: onKeyDown_def)
  from acc pin pout w s show ?thesis by blast
qed

text \<open>
  Claim C7 (pinch direction), as amended. The claim as stated fails: a pinch-in raises the
  scroll accumulator, which the frame adds to the z axis of the target velocity, the
  direction of the S key (backward), not of the W key. What holds: with two contacts and a
  positive previous distance, the accumulator grows by 0.006 times the decrease of the
  distance, in every state; and from rest (no key held, target velocity, velocity and
  accumulator at zero) the frame after a pinch-in drives the z target and the camera in the
  positive z direction, as the S key does, and the frame after a pinch-out drives them in
  the negative z direction, as the W key does.
\<close>

theorem pinch_direction:
  assumes two: "length touches = 2"
    and last: "0 < lastTouchDist s"
  shows "scrollAccum (onTouchMove touches s)
           = scrollAccum s + (lastTouchDist s - getTouchDistance touches) * 0.006 \<and>
         (targetVel s = Vector3 0 0 0 \<and> velocity s = Vector3 0 0 0 \<and>
          scrollAccum s = 0 \<and> keys s = {} \<longrightarrow>
            (getTouchDistance touches < lastTouchDist s \<longrightarrow>
               0 < vec_z (targetVel (useFrame (onTouchMove touches s))) \<and>
               vec_z (cameraPosition s)
                 < vec_z (cameraPosition (useFrame (onTouchMove touches s)))) \<and>
            (lastTouchDist s < getTouchDistance touches \<longrightarrow>
               vec_z (targetVel (useFrame (onTouchMove touches s))) < 0 \<and>
               vec_z (cameraPosition (useFrame (onTouchMove touches s)))
                 < vec_z (cameraPosition s)) \<and>
            vec_z (targetVel (useFrame (onKeyDown ''w'' s))) < 0 \<and>
            vec_z (cameraPosition (useFrame (onKeyDown ''w'' s))) < vec_z (cameraPosition s) \<and>
            0 < vec_z (targetVel (useFrame (onKeyDown ''s'' s))) \<and>
            vec_z (cameraPosition s) < vec_z (cameraPosition (useFrame (onKeyDown ''s'' s))))"
proof (rule conjI)
  show "scrollAccum (onTouchMove touches s)
          = scrollAccum s + (lastTouchDist s - getTouchDistance touches) * 0.006"
    using last by (simp add: onTouchMove_pinch [OF two])
next
  show "targetVel s = Vector3 0 0 0 \<and> velocity s = Vector3 0 0 0 \<and>
        scrollAccum s = 0 \<and> keys s = {} \<longrightarrow>
          (getTouchDistance touches < lastTouchDist s \<longrightarrow>
             0 < vec_z (targetVel (useFrame (onTouchMove touches s))) \<and>
             vec_z (cameraPosition s)
               < vec_z (cameraPosition (useFrame (onTouchMove touches s)))) \<and>
          (lastTouchDist s < getTouchDistance touches \<longrightarrow>
             vec_z (targetVel (useFrame (onTouchMove touches s))) < 0 \<and>
             vec_z (cameraPosition (useFrame (onTouchMove touches s)))
               < vec_z (cameraPosition s)) \<and>
          vec_z (targetVel (useFrame (onKeyDown ''w'' s))) < 0 \<and>
          vec_z (cameraPosition (useFrame (onKeyDown ''w'' s))) < vec_z (cameraPosition s) \<and>
          0 < vec_z (targetVel (useFrame (onKeyDown ''s'' s))) \<and>
          vec_z (cameraPosition s) < vec_z (cameraPosition (useFrame (onKeyDown ''s'' s)))"
  proof
    assume "targetVel s = Vector3 0 0 0 \<and> velocity s = Vector3 0 0 0 \<and>
            scrollAccum s = 0 \<and> keys s = {}"
    then have rest: "targetVel s = Vector3 0 0 0" "velocity s = Vector3 0 0 0"
      "scrollAccum s = 0" "keys s = {}"
      by blast+
    from pinch_from_rest [OF rest two last]
    show "(getTouchDistance touches < lastTouchDist s \<longrightarrow>
             0 < vec_z (targetVel (useFrame (onTouchMove touches s))) \<and>
             vec_z (cameraPosition s)
               < vec_z (cameraPosition (useFrame (onTouchMove touches s)))) \<and>
          (lastTouchDist s < getTouchDistance touches \<longrightarrow>
             vec_z (targetVel (useFrame (onTouchMove touches s))) < 0 \<and>
             vec_z (cameraPosition (useFrame (onTouchMove touches s)))
               < vec_z (cameraPosition s)) \<and>
          vec_z (targetVel (useFrame (onKeyDown ''w'' s))) < 0 \<and>
          vec_z (cameraPosition (useFrame (onKeyDown ''w'' s))) < vec_z (cameraPosition s) \<and>
          0 < vec_z (targetVel (useFrame (onKeyDown ''s'' s))) \<and>
          vec_z (cameraPosition s) < vec_z (cameraPosition (useFrame (onKeyDown ''s'' s)))"
      by blast
  qed
qed

lemma pinch_distances:
  "getTouchDistance pinchStart = 10" "getTouchDistance pinchCloser = 5"
  by (simp_all add: getTouchDistance_def pinchStart_def pinchCloser_def real_sqrt_unique)

lemma run_unfold:
  "run [] = initialController"
  "run (a # steps) = fold step steps (step a initialController)"
  by (simp_all add: run_def)

text \<open>
  The counterexample to claim C7 as stated: two contacts 10 apart move to 5 apart; after
  the next frame the z target is positive and the camera has moved from 50 to beyond 50,
  while a frame with W held makes the z target negative and moves the camera below 50.
\<close>

theorem pinch_in_counterexample:
  "getTouchDistance pinchCloser < getTouchDistance pinchStart \<and>
   0 < vec_z (targetVel (run [Input (TouchStart pinchStart), Input (TouchMove pinchCloser), Frame])) \<and>
   50 < vec_z (cameraPosition
               (run [Input (TouchStart pinchStart), Input (TouchMove pinchCloser), Frame])) \<and>
   vec_z (targetVel (run [Input (KeyDown ''w''), Frame])) < 0 \<and>
   vec_z (cameraPosition (run [Input (KeyDown ''w''), Frame])) < 50"
proof -
  let ?s = "onTouchMove pinchCloser (onTouchStart pinchStart initialController)"
  have two: "length pinchCloser = 2" by (simp add: pinchCloser_def)
  have st: "scrollAccum ?s = 0.03" "targetVel ?s = Vector3 0 0 0" "velocity ?s = Vector3 0 0 0"
    "keys ?s = {}" "cameraPosition ?s = Vector3 0 0 50"
    by (simp_all add: onTouchMove_pinch [OF two] onTouchStart_def pinch_distances
          initialController_def)
  have "clamp 0.03 (- 3.2) 3.2 = 0.03" by (simp add: clamp_def)
  with rest_frame_z [OF st(2,3)] st
  have p: "0 < vec_z (targetVel (useFrame ?s))" "50 < vec_z (cameraPosition (useFrame ?s))"
    by (simp_all add: heldIncrement_def Vector3_def)
  let ?w = "onKeyDown ''w'' initialController"
  have wt: "targetVel ?w = Vector3 0 0 0" "velocity ?w = Vector3 0 0 0"
    "cameraPosition ?w = Vector3 0 0 50" "scrollAccum ?w = 0" "keys ?w = {''w''}"
    by (simp_all add: onKeyDown_def initialController_def toLowerCase_w)
  have "clamp (- 0.18) (- 3.2) 3.2 = - 0.18" by (simp add: clamp_def)
  with rest_frame_z [OF wt(1,2)] wt
  have w: "vec_z (targetVel (useFrame ?w)) < 0" "vec_z (cameraPosition (useFrame ?w)) < 50"
    by (simp_all add: heldIncrement_def Vector3_def)
  from p w show ?thesis
    by (simp add: run_unfold pinch_distances)
qed

theorem pinch_direction_witness:
  "0 < lastTouchDist (onTouchStart pinchStart initialController) \<and>
   getTouchDistance pinchCloser < lastTouchDist (onTouchStart pinchStart initialController) \<and>
   scrollAccum (onTouchMove pinchCloser (onTouchStart pinchStart initialController)) = 0.03 \<and>
   0 < vec_z (targetVel (useFrame (onTouchMove pinchCloser
         (onTouchStart pinchStart initialController)))) \<and>
   vec_z (targetVel (useFrame (onKeyDown ''w'' (onTouchStart pinchStart initialController)))) < 0"
proof -
  let ?s = "onTouchStart pinchStart initialController"
  have rest: "targetVel ?s = Vector3 0 0 0" "velocity ?s = Vector3 0 0 0"
    "scrollAccum ?s = 0" "keys ?s = {}"
    by (simp_all add: onTouchStart_def initialController_def)
  have two: "length pinchCloser = 2" by (simp add: pinchCloser_def)
  have last: "lastTouchDist ?s = 10" by (simp add: onTouchStart_def pinch_distances)
  then have pos: "0 < lastTouchDist ?s" by simp
  from pinch_direction [OF two pos] rest
  have "scrollAccum (onTouchMove pinchCloser ?s)
          = scrollAccum ?s + (lastTouchDist ?s - getTouchDistance pinchCloser) * 0.006"
    and "getTouchDistance pinchCloser < lastTouchDist ?s \<longrightarrow>
           0 < vec_z (targetVel (useFrame (onTouchMove pinchCloser ?s)))"
    and "vec_z (targetVel (useFrame (onKeyDown ''w'' ?s))) < 0"
    by blast+
  with last rest(3) pinch_distances show ?thesis by simp
qed

section \<open>Media plane: displayed scale\<close>

lemma displayScale_computed:
  assumes "0 < w" "0 < h"
  shows "displayScale (Vector3 H H 1)
           (Some \<lparr>texture_id = t, texture_image = Some (HTMLVideoElement w h)\<rparr>)
         = Vector3 (H * real w / real h) H 1"
    and "displayScale (Vector3 H H 1)
           (Some \<lparr>texture_id = t, texture_image = Some (HTMLImageElement c w h aw ah)\<rparr>)
         = Vector3 (H * real w / real h) H 1"
  using assms
  by (simp_all add: displayScale_def getMediaDimensions_def falsy_def Vector3_def Let_def)

lemma displayScale_fallback:
  "displayScale (Vector3 H H 1) None = Vector3 H H 1"
  "displayScale (Vector3 H H 1) (Some \<lparr>texture_id = t, texture_image = None\<rparr>) = Vector3 H H 1"
  "displayScale (Vector3 H H 1) (Some \<lparr>texture_id = t, texture_image = Some OtherElement\<rparr>)
     = Vector3 H H 1"
  "w = 0 \<or> h = 0 \<Longrightarrow>
   displayScale (Vector3 H H 1)
     (Some \<lparr>texture_id = t, texture_image = Some (HTMLVideoElement w h)\<rparr>) = Vector3 H H 1"
  "(w = 0 \<and> aw = 0) \<or> (h = 0 \<and> ah = 0) \<Longrightarrow>
   displayScale (Vector3 H H 1)
     (Some \<lparr>texture_id = t, texture_image = Some (HTMLImageElement c w h aw ah)\<rparr>)
     = Vector3 H H 1"
  by (auto simp add: displayScale_def getMediaDimensions_def falsy_def Vector3_def Let_def)

lemma clipTexture_eq:
  "clipTexture = \<lparr>texture_id = 1, texture_image = Some (HTMLVideoElement 0 0)\<rparr>"
  by (simp add: clipTexture_def getTexture_def createVideo_def emptyCache_def clip_def Let_def)

text \<open>
  Claim C8 (aspect preservation). The callback computes the claimed scale whenever it runs
  (the two lemmas above), but the hook runs it only when the scale or the texture is a
  different object. A video plane, traced through its renders: the mount render, the
  effect (the fresh video reports 0 by 0, so the effect registers the listener), the
  render that follows \<^verbatim>\<open>setTexture\<close> (the callback runs and falls back to the square),
  the \<^verbatim>\<open>loadedmetadata\<close> event (only \<^verbatim>\<open>isReady\<close> changes), and the render after it. In that
  last render the texture's element reports 1920 by 1080, the plane is ready and shows its
  mesh, and the scale shown is still the square \<open>(16, 16, 1)\<close>, not
  \<open>(16 * 1920 / 1080, 16, 1)\<close>.
\<close>

theorem displayScale_stale_after_load:
  "texture_image clipTexture = Some (HTMLVideoElement 0 0) \<and>
   object_value planeScale = Vector3 16 16 1 \<and>
   st_texture (planeAfterLoad planeScale) = Some (texture_id clipTexture) \<and>
   st_isReady (planeAfterLoad planeScale) \<and>
   heapLoaded (texture_id clipTexture) = Some (HTMLVideoElement 1920 1080) \<and>
   fst (renderMediaPlane planeScale heapLoaded (planeAfterLoad planeScale))
     = Some (Vector3 16 16 1) \<and>
   Vector3 16 16 1 \<noteq> Vector3 (16 * 1920 / 1080) 16 1"
  by (simp add: clipTexture_eq planeAfterLoad_def planeScale_def heapBefore_def heapLoaded_def
        renderMediaPlane_def useMemo_displayScale_def mediaEffect_def listenerFired_def
        mountedPlane_def readTexture_def displayScale_def getMediaDimensions_def falsy_def
        Vector3_def Let_def)

text \<open>
  Had the last render received another scale object with the same components, the hook
  would have run the callback again and shown the video's aspect.
\<close>

lemma displayScale_recomputed_for_new_object:
  "fst (renderMediaPlane (planeScale\<lparr>object_id := 1\<rparr>) heapLoaded (planeAfterLoad planeScale))
     = Some (Vector3 (16 * (1920 / 1080)) 16 1)"
  by (simp add: clipTexture_eq planeAfterLoad_def planeScale_def heapBefore_def heapLoaded_def
        renderMediaPlane_def useMemo_displayScale_def mediaEffect_def listenerFired_def
        mountedPlane_def readTexture_def displayScale_def getMediaDimensions_def falsy_def
        Vector3_def Let_def)

section \<open>Chunk keys\<close>

text \<open>
  The key of a chunk determines its coordinates: decimal strings have no comma and denote
  one number each.
\<close>

lemma of_char_digitChar: "d < 10 \<Longrightarrow> of_char (digitChar d) = 48 + d"
  by (simp add: digitChar_def)

lemma digitChar_not_sep:
  assumes "d < 10"
  shows "digitChar d \<noteq> CHR '',''" "digitChar d \<noteq> CHR ''-''"
proof -
  have "(of_char (digitChar d) :: nat) \<noteq> of_char CHR '',''"
    "(of_char (digitChar d) :: nat) \<noteq> of_char CHR ''-''"
    using assms by (simp_all add: of_char_digitChar)
  then show "digitChar d \<noteq> CHR '',''" "digitChar d \<noteq> CHR ''-''" by auto
qed

lemma natToString_chars:
  "c \<in> set (natToString n) \<Longrightarrow> c \<noteq> CHR '','' \<and> c \<noteq> CHR ''-''"
proof (induction n rule: natToString.induct)
  case (1 n)
  show ?case
  proof (cases "n < 10")
    case True
    with "1.prems" show ?thesis
      using digitChar_not_sep [of n] by (simp add: natToString.simps [of n])
  next
    case False
    have "n mod 10 < 10" by simp
    note ds = digitChar_not_sep [OF this]
    from False "1.prems" have "c \<in> set (natToString (n div 10)) \<or> c = digitChar (n mod 10)"
      by (auto simp: natToString.simps [of n])
    with "1.IH" [OF False] ds show ?thesis by auto
  qed
qed

lemma natToString_nonempty: "natToString n \<noteq> []"
  by (simp add: natToString.simps [of n])

lemma digitsValue_snoc: "digitsValue (str @ [c]) = 10 * digitsValue str + (of_char c - 48)"
  by (simp add: digitsValue_def)

lemma digitsValue_natToString: "digitsValue (natToString n) = n"
proof (induction n rule: natToString.induct)
  case (1 n)
  show ?case
  proof (cases "n < 10")
    case True
    then show ?thesis
      by (simp add: natToString.simps [of n] digitsValue_def of_char_digitChar)
  next
    case False
    have "n mod 10 < 10" by simp
    then have "(of_char (digitChar (n mod 10)) :: nat) - 48 = n mod 10"
      by (simp add: of_char_digitChar)
    with "1.IH" [OF False] False show ?thesis
      by (simp add: natToString.simps [of n] digitsValue_snoc)
  qed
qed

lemma natToString_inj: "natToString m = natToString n \<Longrightarrow> m = n"
  by (metis digitsValue_natToString)

lemma numberToString_no_comma: "CHR '','' \<notin> set (numberToString i)"
  using natToString_chars by (auto simp: numberToString_def)

lemma numberToString_inj:
  assumes "numberToString i = numberToString j"
  shows "i = j"
proof -
  have hd_pos: "hd (natToString n) \<noteq> CHR ''-''" for n
    using natToString_chars [of "hd (natToString n)" n] natToString_nonempty [of n]
    by (simp add: hd_in_set)
  have neq: "CHR ''-'' # natToString a \<noteq> natToString b" for a b
    using hd_pos [of b] by (cases "natToString b") auto
  show ?thesis
  proof (cases "i < 0")
    case True
    show ?thesis
    proof (cases "j < 0")
      case True
      with \<open>i < 0\<close> assms have "nat (- i) = nat (- j)"
        by (auto simp: numberToString_def dest: natToString_inj)
      with True \<open>i < 0\<close> show ?thesis by linarith
    next
      case False
      with True assms neq show ?thesis by (simp add: numberToString_def)
    qed
  next
    case False
    show ?thesis
    proof (cases "j < 0")
      case True
      with False assms neq [of "nat (- j)" "nat i"] show ?thesis
        by (simp add: numberToString_def)
    next
      case nj: False
      with False assms have "nat i = nat j"
        by (auto simp: numberToString_def dest: natToString_inj)
      with False nj show ?thesis by linarith
    qed
  qed
qed

lemma comma_split:
  assumes "CHR '','' \<notin> set a" "CHR '','' \<notin> set a'" "a @ CHR '','' # r = a' @ CHR '','' # r'"
  shows "a = a' \<and> r = r'"
proof -
  have "takeWhile (\<lambda>c. c \<noteq> CHR '','') (a @ CHR '','' # r) = a"
    "takeWhile (\<lambda>c. c \<noteq> CHR '','') (a' @ CHR '','' # r') = a'"
    using assms(1,2) by (auto simp: takeWhile_tail)
  with assms(3) have "a = a'" by simp
  with assms(3) show ?thesis by simp
qed

lemma chunkKey_inj:
  assumes "chunkKey a b c = chunkKey a' b' c'"
  shows "a = a' \<and> b = b' \<and> c = c'"
proof -
  from assms have e: "numberToString a @ CHR '','' # (numberToString b @ CHR '','' # numberToString c)
      = numberToString a' @ CHR '','' # (numberToString b' @ CHR '','' # numberToString c')"
    by (simp add: chunkKey_def)
  from comma_split [OF numberToString_no_comma numberToString_no_comma e]
  have 1: "numberToString a = numberToString a'"
    and r: "numberToString b @ CHR '','' # numberToString c
             = numberToString b' @ CHR '','' # numberToString c'"
    by simp_all
  from comma_split [OF numberToString_no_comma numberToString_no_comma r]
  have 2: "numberToString b = numberToString b'" and 3: "numberToString c = numberToString c'"
    by simp_all
  from 1 2 3 show ?thesis by (simp add: numberToString_inj)
qed

section \<open>The offset cube\<close>

lemma set_offsets_over:
  "set (concat (map (\<lambda>dx. concat (map (\<lambda>dy. concat (map (\<lambda>dz.
       (let dist = max (max \<bar>dx\<bar> \<bar>dy\<bar>) \<bar>dz\<bar>
        in if dist > m then []
           else [\<lparr>off_dx = dx, off_dy = dy, off_dz = dz, off_dist = dist\<rparr>])) ds)) ds)) ds))
   = {mkOffset a b c | a b c. a \<in> set ds \<and> b \<in> set ds \<and> c \<in> set ds \<and> chebyshev a b c \<le> m}"
  by (auto simp: Let_def mkOffset_def chebyshev_def not_less)

lemma set_CHUNK_OFFSETS:
  "set CHUNK_OFFSETS = {mkOffset a b c | a b c. \<bar>a\<bar> \<le> 3 \<and> \<bar>b\<bar> \<le> 3 \<and> \<bar>c\<bar> \<le> 3}"
proof -
  have m: "MAX_DIST = 3" by (simp add: MAX_DIST_def RENDER_DISTANCE_def CHUNK_FADE_MARGIN_def)
  have r: "a \<in> {- MAX_DIST..MAX_DIST} \<longleftrightarrow> \<bar>a\<bar> \<le> 3" for a
    unfolding m by auto
  have c: "\<bar>a\<bar> \<le> 3 \<and> \<bar>b\<bar> \<le> 3 \<and> \<bar>c\<bar> \<le> 3 \<and> chebyshev a b c \<le> MAX_DIST
             \<longleftrightarrow> \<bar>a\<bar> \<le> 3 \<and> \<bar>b\<bar> \<le> 3 \<and> \<bar>c\<bar> \<le> 3" for a b c
    unfolding m chebyshev_def by auto
  show ?thesis
    unfolding CHUNK_OFFSETS_def set_offsets_over set_upto r c ..
qed

lemma distinct_concat_map:
  assumes "distinct xs"
    and "\<And>x. x \<in> set xs \<Longrightarrow> distinct (f x)"
    and "\<And>x y. x \<in> set xs \<Longrightarrow> y \<in> set xs \<Longrightarrow> x \<noteq> y \<Longrightarrow> set (f x) \<inter> set (f y) = {}"
  shows "distinct (concat (map f xs))"
  using assms
proof (induction xs)
  case Nil
  then show ?case by simp
next
  case (Cons a xs)
  have "distinct (concat (map f xs))"
    using Cons.prems by (intro Cons.IH) auto
  moreover have "set (f a) \<inter> set (f y) = {}" if "y \<in> set xs" for y
    using Cons.prems(1) Cons.prems(3) [of a y] that by auto
  ultimately show ?case using Cons.prems(2) [of a] by auto
qed

lemma distinct_offsets_over:
  assumes "distinct ds"
  shows "distinct (concat (map (\<lambda>dx. concat (map (\<lambda>dy. concat (map (\<lambda>dz.
       (let dist = max (max \<bar>dx\<bar> \<bar>dy\<bar>) \<bar>dz\<bar>
        in if dist > m then []
           else [\<lparr>off_dx = dx, off_dy = dy, off_dz = dz, off_dist = dist\<rparr>])) ds)) ds)) ds))"
  using assms
  by (intro distinct_concat_map) (auto simp: Let_def)

lemma distinct_CHUNK_OFFSETS: "distinct CHUNK_OFFSETS"
  unfolding CHUNK_OFFSETS_def by (rule distinct_offsets_over) (rule distinct_upto)

lemma offset_key_inj:
  assumes "o1 \<in> set CHUNK_OFFSETS" "o2 \<in> set CHUNK_OFFSETS"
    and "chunkKey (cx + off_dx o1) (cy + off_dy o1) (cz + off_dz o1)
           = chunkKey (cx + off_dx o2) (cy + off_dy o2) (cz + off_dz o2)"
  shows "o1 = o2"
proof -
  from chunkKey_inj [OF assms(3)]
  have "off_dx o1 = off_dx o2" "off_dy o1 = off_dy o2" "off_dz o1 = off_dz o2" by simp_all
  with assms(1,2) show ?thesis
    by (auto simp: set_CHUNK_OFFSETS mkOffset_def)
qed

section \<open>The frame callback: chunk visibility\<close>

subsection \<open>The map of previous chunks\<close>

lemma fold_prevMap_other:
  "k \<notin> chunk_key ` set prev \<Longrightarrow> fold (\<lambda>c m. m(chunk_key c \<mapsto> c)) prev m k = m k"
  by (induction prev arbitrary: m) auto

lemma fold_prevMap_Some:
  "fold (\<lambda>c m. m(chunk_key c \<mapsto> c)) prev m k = Some c \<Longrightarrow>
     (c \<in> set prev \<and> chunk_key c = k) \<or> m k = Some c"
proof (induction prev arbitrary: m)
  case Nil
  then show ?case by simp
next
  case (Cons a prev)
  from Cons.IH [of "m(chunk_key a \<mapsto> a)"] Cons.prems
  have "(c \<in> set prev \<and> chunk_key c = k) \<or> (m(chunk_key a \<mapsto> a)) k = Some c" by simp
  then show ?case by (auto split: if_splits)
qed

lemma fold_prevMap_distinct:
  "distinct (map chunk_key prev) \<Longrightarrow> c \<in> set prev \<Longrightarrow>
     fold (\<lambda>c m. m(chunk_key c \<mapsto> c)) prev m (chunk_key c) = Some c"
proof (induction prev arbitrary: m)
  case Nil
  then show ?case by simp
next
  case (Cons a prev)
  show ?case
  proof (cases "c = a")
    case True
    with Cons.prems(1) have "chunk_key a \<notin> chunk_key ` set prev" by simp
    from fold_prevMap_other [OF this, of "m(chunk_key a \<mapsto> a)"]
    have "fold (\<lambda>c m. m(chunk_key c \<mapsto> c)) prev (m(chunk_key a \<mapsto> a)) (chunk_key a) = Some a"
      by simp
    then show ?thesis unfolding True by (simp only: fold_simps o_apply)
  next
    case False
    with Cons.prems have "c \<in> set prev" "distinct (map chunk_key prev)" by simp_all
    from Cons.IH [OF this(2,1)] show ?thesis by simp
  qed
qed

lemma buildPrevMap_Some:
  "buildPrevMap prev k = Some c \<Longrightarrow> c \<in> set prev \<and> chunk_key c = k"
  using fold_prevMap_Some [of prev Map.empty k c] by (simp add: buildPrevMap_def)

lemma buildPrevMap_None:
  "k \<notin> chunk_key ` set prev \<Longrightarrow> buildPrevMap prev k = None"
  using fold_prevMap_other [of k prev Map.empty] by (simp add: buildPrevMap_def)

lemma buildPrevMap_distinct:
  "distinct (map chunk_key prev) \<Longrightarrow> c \<in> set prev \<Longrightarrow> buildPrevMap prev (chunk_key c) = Some c"
  unfolding buildPrevMap_def by (rule fold_prevMap_distinct)

subsection \<open>Targets\<close>

lemma gridTarget_range: "0 \<le> gridTarget d \<and> gridTarget d \<le> 1"
  by (simp add: gridTarget_def RENDER_DISTANCE_def CHUNK_FADE_MARGIN_def)

lemma gridTarget_far: "3 \<le> d \<Longrightarrow> gridTarget d = 0"
  by (simp add: gridTarget_def RENDER_DISTANCE_def CHUNK_FADE_MARGIN_def)

lemma gridTarget_near: "d \<le> 2 \<Longrightarrow> gridTarget d = 1"
  by (simp add: gridTarget_def RENDER_DISTANCE_def)

lemma depthTarget_range: "0 \<le> depthTarget a \<and> depthTarget a \<le> 1"
proof -
  define l where "l = (if a \<le> DEPTH_FADE_START then 1
             else max 0 (1 - (a - DEPTH_FADE_START)
                              / max (DEPTH_FADE_END - DEPTH_FADE_START) 0.0001))"
  have l: "0 \<le> l" "l \<le> 1"
    by (auto simp: l_def DEPTH_FADE_START_def DEPTH_FADE_END_def)
  have "depthTarget a = l * l" by (simp add: depthTarget_def l_def Let_def)
  moreover have "0 \<le> l * l" using l by simp
  moreover have "l * l \<le> 1" using l by (simp add: mult_le_one)
  ultimately show ?thesis by simp
qed

lemma depthTarget_near: "a \<le> 140 \<Longrightarrow> depthTarget a = 1"
  by (simp add: depthTarget_def DEPTH_FADE_START_def)

lemma targetVisibility_range:
  "0 \<le> targetVisibility d dz cz camZ \<and> targetVisibility d dz cz camZ \<le> 1"
  using gridTarget_range [of d] depthTarget_range
  by (simp add: targetVisibility_def Let_def min_le_iff_disj)

lemma targetVisibility_far: "3 \<le> d \<Longrightarrow> targetVisibility d dz cz camZ = 0"
  using depthTarget_range by (simp add: targetVisibility_def Let_def gridTarget_far)

lemma lerp_unit:
  assumes "0 \<le> a" "a \<le> 1" "0 \<le> b" "b \<le> 1"
  shows "0 \<le> lerp a b VISIBILITY_LERP \<and> lerp a b VISIBILITY_LERP \<le> 1"
proof -
  have "lerp a b VISIBILITY_LERP = 0.82 * a + 0.18 * b"
    by (simp add: lerp_def VISIBILITY_LERP_def field_simps)
  with assms show ?thesis by simp
qed

lemma lerp_to_zero: "lerp a 0 VISIBILITY_LERP = 0.82 * a"
  by (simp add: lerp_def VISIBILITY_LERP_def field_simps)

lemma lerp_step:
  "\<bar>lerp a b VISIBILITY_LERP - a\<bar> = 0.18 * \<bar>b - a\<bar>"
proof -
  have "lerp a b VISIBILITY_LERP - a = 0.18 * (b - a)"
    by (simp add: lerp_def VISIBILITY_LERP_def)
  then have "\<bar>lerp a b VISIBILITY_LERP - a\<bar> = \<bar>0.18 * (b - a)\<bar>" by (simp only:)
  also have "\<dots> = \<bar>0.18\<bar> * \<bar>b - a\<bar>" by (rule abs_mult)
  also have "\<bar>0.18 :: real\<bar> = 0.18" by simp
  finally show ?thesis .
qed

subsection \<open>Membership in the next chunk list\<close>

lemma offsetLoop_mem:
  "c \<in> set (offsetLoop prevMap cx cy cz camZ offs) \<longleftrightarrow>
     (\<exists>off \<in> set offs. nextChunk prevMap cx cy cz camZ off = Some c)"
  by (induction offs) (auto split: option.splits)

lemma setChunks_mem:
  "c \<in> set (setChunks cx cy cz camZ prev) \<longleftrightarrow>
     (\<exists>off \<in> set CHUNK_OFFSETS. nextChunk (buildPrevMap prev) cx cy cz camZ off = Some c)"
  by (simp add: setChunks_def Let_def offsetLoop_mem)

lemma nextChunk_Some:
  assumes "nextChunk prevMap cx cy cz camZ off = Some c"
  shows "chunk_key c = chunkKey (cx + off_dx off) (cy + off_dy off) (cz + off_dz off)"
    and "chunk_cx c = cx + off_dx off" "chunk_cy c = cy + off_dy off"
    and "chunk_cz c = cz + off_dz off"
    and "chunk_visibility c =
           lerp (case prevMap (chunk_key c) of None \<Rightarrow> 0 | Some p \<Rightarrow> chunk_visibility p)
                (targetVisibility (off_dist off) (off_dz off) cz camZ) VISIBILITY_LERP"
    and "\<not> (chunk_visibility c < 0.01 \<and> targetVisibility (off_dist off) (off_dz off) cz camZ = 0)"
  using assms by (auto simp: nextChunk_def Let_def split: if_splits)

lemma nextChunk_None:
  assumes "nextChunk prevMap cx cy cz camZ off = None"
  shows "targetVisibility (off_dist off) (off_dz off) cz camZ = 0"
    and "lerp (case prevMap (chunkKey (cx + off_dx off) (cy + off_dy off) (cz + off_dz off)) of
                 None \<Rightarrow> 0 | Some p \<Rightarrow> chunk_visibility p)
              (targetVisibility (off_dist off) (off_dz off) cz camZ) VISIBILITY_LERP < 0.01"
  using assms by (auto simp: nextChunk_def Let_def split: if_splits)

lemma offsetLoop_distinct:
  assumes "distinct offs"
    and "\<And>o1 o2. o1 \<in> set offs \<Longrightarrow> o2 \<in> set offs \<Longrightarrow>
           chunkKey (cx + off_dx o1) (cy + off_dy o1) (cz + off_dz o1)
             = chunkKey (cx + off_dx o2) (cy + off_dy o2) (cz + off_dz o2) \<Longrightarrow> o1 = o2"
  shows "distinct (map chunk_key (offsetLoop prevMap cx cy cz camZ offs))"
  using assms
proof (induction offs)
  case Nil
  then show ?case by simp
next
  case (Cons a offs)
  have ih: "distinct (map chunk_key (offsetLoop prevMap cx cy cz camZ offs))"
    using Cons.prems by (intro Cons.IH) auto
  show ?case
  proof (cases "nextChunk prevMap cx cy cz camZ a")
    case None
    with ih show ?thesis by simp
  next
    case (Some c)
    have "chunk_key c \<notin> chunk_key ` set (offsetLoop prevMap cx cy cz camZ offs)"
    proof
      assume "chunk_key c \<in> chunk_key ` set (offsetLoop prevMap cx cy cz camZ offs)"
      then obtain c' off where o: "off \<in> set offs"
        "nextChunk prevMap cx cy cz camZ off = Some c'" "chunk_key c' = chunk_key c"
        by (auto simp: offsetLoop_mem)
      with nextChunk_Some(1) [OF Some] nextChunk_Some(1) [OF o(2)]
      have "chunkKey (cx + off_dx off) (cy + off_dy off) (cz + off_dz off)
              = chunkKey (cx + off_dx a) (cy + off_dy a) (cz + off_dz a)" by simp
      with Cons.prems(2) [of off a] o(1) have "off = a" by simp
      with Cons.prems(1) o(1) show False by simp
    qed
    with ih Some show ?thesis by simp
  qed
qed

lemma setChunks_distinct: "distinct (map chunk_key (setChunks cx cy cz camZ prev))"
  unfolding setChunks_def Let_def
  by (rule offsetLoop_distinct [OF distinct_CHUNK_OFFSETS]) (rule offset_key_inj)

lemma initialChunks_distinct: "distinct (map chunk_key initialChunks)"
proof -
  have "map chunk_key initialChunks
          = map (\<lambda>off. chunkKey (0 + off_dx off) (0 + off_dy off) (0 + off_dz off)) CHUNK_OFFSETS"
    by (simp add: initialChunks_def Let_def)
  moreover have "inj_on (\<lambda>off. chunkKey (0 + off_dx off) (0 + off_dy off) (0 + off_dz off))
                   (set CHUNK_OFFSETS)"
    by (rule inj_onI) (rule offset_key_inj)
  ultimately show ?thesis
    by (simp only: distinct_map distinct_CHUNK_OFFSETS simp_thms)
qed

subsection \<open>Fading at the edge of the cube\<close>

lemma cameraChunk_bounds:
  "of_int (cameraChunk p) * CHUNK_SIZE \<le> p" "p < (of_int (cameraChunk p) + 1) * CHUNK_SIZE"
proof -
  have "of_int \<lfloor>p / 110\<rfloor> \<le> p / 110" "p / 110 < of_int \<lfloor>p / 110\<rfloor> + 1"
    by linarith+
  then show "of_int (cameraChunk p) * CHUNK_SIZE \<le> p"
    "p < (of_int (cameraChunk p) + 1) * CHUNK_SIZE"
    by (simp_all add: cameraChunk_def CHUNK_SIZE_def field_simps)
qed

lemma cameraChunk_close:
  assumes "\<bar>p' - p\<bar> \<le> 3.2"
  shows "cameraChunk p' \<le> cameraChunk p + 1" "cameraChunk p \<le> cameraChunk p' + 1"
proof -
  note b = cameraChunk_bounds [of p] cameraChunk_bounds [of p']
  from assms have c: "p' \<le> p + 3.2" "p \<le> p' + 3.2" by linarith+
  have "real_of_int (cameraChunk p') * 110 < (real_of_int (cameraChunk p) + 2) * 110"
    using b c by (simp add: CHUNK_SIZE_def)
  then have "real_of_int (cameraChunk p') < real_of_int (cameraChunk p + 2)" by simp
  then have "cameraChunk p' < cameraChunk p + 2" by (simp only: of_int_less_iff)
  then show "cameraChunk p' \<le> cameraChunk p + 1" by simp
  have "real_of_int (cameraChunk p) * 110 < (real_of_int (cameraChunk p') + 2) * 110"
    using b c by (simp add: CHUNK_SIZE_def)
  then have "real_of_int (cameraChunk p) < real_of_int (cameraChunk p' + 2)" by simp
  then have "cameraChunk p < cameraChunk p' + 2" by (simp only: of_int_less_iff)
  then show "cameraChunk p \<le> cameraChunk p' + 1" by simp
qed

lemma fade_next:
  fixes v :: real
  assumes "v \<le> 0.82 ^ n"
  shows "0.82 * v \<le> 0.82 ^ Suc n"
proof -
  have "0.82 * v \<le> 0.82 * 0.82 ^ n"
    by (rule mult_left_mono [OF assms]) simp
  then show ?thesis by (simp only: power_Suc)
qed

lemma fade_first:
  fixes v :: real
  assumes "v \<le> 1"
  shows "0.82 * v \<le> 0.82 ^ Suc 0"
proof -
  have "0.82 * v \<le> 0.82 * 1"
    by (rule mult_left_mono [OF assms]) simp
  then show ?thesis by (simp only: power_Suc power_0 mult_1_right)
qed

lemma fade_step_hi:
  assumes fb: "fadeBound p i v" and close: "\<bar>p' - p\<bar> \<le> 3.2" and v1: "v \<le> 1"
    and d: "i - cameraChunk p' = 3"
  shows "\<exists>n. (of_int (cameraChunk p') + 1) * CHUNK_SIZE - p' \<le> 3.2 * real n \<and> 0.82 * v \<le> 0.82 ^ n"
proof -
  note b = cameraChunk_bounds [of p] cameraChunk_bounds [of p']
  from close have c: "p' \<le> p + 3.2" "p \<le> p' + 3.2" by linarith+
  from fb have r: "\<bar>i - cameraChunk p\<bar> \<le> 3" by (simp add: fadeBound_def)
  with d cameraChunk_close [OF close]
  consider "cameraChunk p = cameraChunk p'" | "cameraChunk p = cameraChunk p' + 1"
    by linarith
  then show ?thesis
  proof cases
    case 1
    with d fb obtain n where
      n: "(of_int (cameraChunk p) + 1) * CHUNK_SIZE - p \<le> 3.2 * real n" "v \<le> 0.82 ^ n"
      by (auto simp: fadeBound_def)
    have "(of_int (cameraChunk p') + 1) * CHUNK_SIZE - p' \<le> 3.2 * real (Suc n)"
      using n(1) c 1 by simp
    with fade_next [OF n(2)] show ?thesis by blast
  next
    case 2
    have "(of_int (cameraChunk p') + 1) * CHUNK_SIZE - p' \<le> 3.2 * real (Suc 0)"
      using b c 2 by simp
    with fade_first [OF v1] show ?thesis by blast
  qed
qed

lemma fade_step_lo:
  assumes fb: "fadeBound p i v" and close: "\<bar>p' - p\<bar> \<le> 3.2" and v1: "v \<le> 1"
    and d: "i - cameraChunk p' = - 3"
  shows "\<exists>n. p' - of_int (cameraChunk p') * CHUNK_SIZE \<le> 3.2 * real n \<and> 0.82 * v \<le> 0.82 ^ n"
proof -
  note b = cameraChunk_bounds [of p] cameraChunk_bounds [of p']
  from close have c: "p' \<le> p + 3.2" "p \<le> p' + 3.2" by linarith+
  from fb have r: "\<bar>i - cameraChunk p\<bar> \<le> 3" by (simp add: fadeBound_def)
  with d cameraChunk_close [OF close]
  consider "cameraChunk p = cameraChunk p'" | "cameraChunk p + 1 = cameraChunk p'"
    by linarith
  then show ?thesis
  proof cases
    case 1
    with d fb obtain n where
      n: "p - of_int (cameraChunk p) * CHUNK_SIZE \<le> 3.2 * real n" "v \<le> 0.82 ^ n"
      by (auto simp: fadeBound_def)
    have "p' - of_int (cameraChunk p') * CHUNK_SIZE \<le> 3.2 * real (Suc n)"
      using n(1) c 1 by simp
    with fade_next [OF n(2)] show ?thesis by blast
  next
    case 2
    then have e: "real_of_int (cameraChunk p') = real_of_int (cameraChunk p) + 1"
      by (metis of_int_1 of_int_add)
    have "p' - of_int (cameraChunk p') * CHUNK_SIZE \<le> 3.2 * real (Suc 0)"
      using b c unfolding e by simp
    with fade_first [OF v1] show ?thesis by blast
  qed
qed

lemma faded_out:
  fixes v slack :: real
  assumes "slack \<le> 3.2 * real n" "106.8 \<le> slack" "v \<le> 0.82 ^ n"
  shows "0.82 * v < 0.01"
proof -
  from assms(1,2) have "real 24 \<le> real n" by simp
  then have n: "24 \<le> n" by (simp only: of_nat_le_iff)
  have "(0.82 :: real) ^ n \<le> 0.82 ^ 24"
    by (rule power_decreasing [OF n]) simp_all
  also have "\<dots> < 3 / 250" by (simp add: power_divide)
  finally have "0.82 ^ n < (3 / 250 :: real)" .
  with assms(3) have "v < 3 / 250" by linarith
  then have "41 / 50 * v < 1 / 100" by linarith
  then show ?thesis by simp
qed

lemma fade_exit:
  assumes fb: "fadeBound p i v" and close: "\<bar>p' - p\<bar> \<le> 3.2"
    and d: "4 \<le> \<bar>i - cameraChunk p'\<bar>"
  shows "0.82 * v < 0.01"
proof -
  note b = cameraChunk_bounds [of p] cameraChunk_bounds [of p']
  from close have c: "p' \<le> p + 3.2" "p \<le> p' + 3.2" by linarith+
  from fb have r: "\<bar>i - cameraChunk p\<bar> \<le> 3" by (simp add: fadeBound_def)
  with d cameraChunk_close [OF close]
  consider "i - cameraChunk p = 3" "cameraChunk p = cameraChunk p' + 1"
    | "i - cameraChunk p = - 3" "cameraChunk p + 1 = cameraChunk p'"
    by linarith
  then show ?thesis
  proof cases
    case 1
    with fb obtain n where
      n: "(of_int (cameraChunk p) + 1) * CHUNK_SIZE - p \<le> 3.2 * real n" "v \<le> 0.82 ^ n"
      by (auto simp: fadeBound_def)
    have "106.8 \<le> (of_int (cameraChunk p) + 1) * CHUNK_SIZE - p"
      using b c 1(2) by (simp add: CHUNK_SIZE_def)
    from faded_out [OF n(1) this n(2)] show ?thesis .
  next
    case 2
    with fb obtain n where
      n: "p - of_int (cameraChunk p) * CHUNK_SIZE \<le> 3.2 * real n" "v \<le> 0.82 ^ n"
      by (auto simp: fadeBound_def)
    from 2(2) have e: "real_of_int (cameraChunk p') = real_of_int (cameraChunk p) + 1"
      by (metis of_int_1 of_int_add)
    have "106.8 \<le> p - of_int (cameraChunk p) * CHUNK_SIZE"
      using b c unfolding e by (simp add: CHUNK_SIZE_def)
    from faded_out [OF n(1) this n(2)] show ?thesis .
  qed
qed

lemma axis_fade:
  assumes "\<bar>d\<bar> \<le> 3" and i: "i = cameraChunk p' + d" and close: "\<bar>p' - p\<bar> \<le> 3.2"
    and far: "\<bar>d\<bar> = 3 \<Longrightarrow> \<exists>v. v' = 0.82 * v \<and> fadeBound p i v \<and> v \<le> 1"
  shows "fadeBound p' i v'"
  unfolding fadeBound_def
proof (intro conjI impI)
  show "\<bar>i - cameraChunk p'\<bar> \<le> 3" using assms(1) i by simp
next
  assume h: "i - cameraChunk p' = 3"
  with i have "\<bar>d\<bar> = 3" by simp
  from far [OF this] obtain v where e: "v' = 0.82 * v" and fb: "fadeBound p i v" and v1: "v \<le> 1"
    by blast
  from fade_step_hi [OF fb close v1 h]
  show "\<exists>n. (of_int (cameraChunk p') + 1) * CHUNK_SIZE - p' \<le> 3.2 * real n \<and> v' \<le> 0.82 ^ n"
    unfolding e .
next
  assume h: "i - cameraChunk p' = - 3"
  with i have "\<bar>d\<bar> = 3" by simp
  from far [OF this] obtain v where e: "v' = 0.82 * v" and fb: "fadeBound p i v" and v1: "v \<le> 1"
    by blast
  from fade_step_lo [OF fb close v1 h]
  show "\<exists>n. p' - of_int (cameraChunk p') * CHUNK_SIZE \<le> 3.2 * real n \<and> v' \<le> 0.82 ^ n"
    unfolding e .
qed

subsection \<open>The chunk list along a run\<close>

lemma chebyshev_far: "\<bar>a\<bar> = 3 \<or> \<bar>b\<bar> = 3 \<or> \<bar>c\<bar> = 3 \<Longrightarrow> 3 \<le> chebyshev a b c"
  by (auto simp: chebyshev_def)

lemma chebyshev_outside: "4 \<le> \<bar>a\<bar> \<or> 4 \<le> \<bar>b\<bar> \<or> 4 \<le> \<bar>c\<bar> \<Longrightarrow> 3 \<le> chebyshev a b c"
  by (auto simp: chebyshev_def)

lemma key_coords:
  assumes "chunkInv cam p" "chunk_key p = chunkKey x y z"
  shows "chunk_cx p = x \<and> chunk_cy p = y \<and> chunk_cz p = z"
  using assms chunkKey_inj [of "chunk_cx p" "chunk_cy p" "chunk_cz p" x y z]
  by (simp add: chunkInv_def)

lemma setChunks_inv:
  assumes inv: "chunksInv cam prev"
    and close: "\<bar>vec_x cam' - vec_x cam\<bar> \<le> 3.2" "\<bar>vec_y cam' - vec_y cam\<bar> \<le> 3.2"
      "\<bar>vec_z cam' - vec_z cam\<bar> \<le> 3.2"
  shows "chunksInv cam'
           (setChunks (cameraChunk (vec_x cam')) (cameraChunk (vec_y cam'))
              (cameraChunk (vec_z cam')) (vec_z cam') prev)"
  unfolding chunksInv_def
proof (intro conjI ballI)
  let ?cx = "cameraChunk (vec_x cam')" and ?cy = "cameraChunk (vec_y cam')"
    and ?cz = "cameraChunk (vec_z cam')"
  show "distinct (map chunk_key (setChunks ?cx ?cy ?cz (vec_z cam') prev))"
    by (rule setChunks_distinct)
  fix c' assume "c' \<in> set (setChunks ?cx ?cy ?cz (vec_z cam') prev)"
  then obtain off where off: "off \<in> set CHUNK_OFFSETS"
    and nc: "nextChunk (buildPrevMap prev) ?cx ?cy ?cz (vec_z cam') off = Some c'"
    by (auto simp: setChunks_mem)
  from off obtain a b c where o: "off = mkOffset a b c" and r: "\<bar>a\<bar> \<le> 3" "\<bar>b\<bar> \<le> 3" "\<bar>c\<bar> \<le> 3"
    unfolding set_CHUNK_OFFSETS by blast
  note f = nextChunk_Some [OF nc]
  have co: "chunk_cx c' = ?cx + a" "chunk_cy c' = ?cy + b" "chunk_cz c' = ?cz + c"
    and key: "chunk_key c' = chunkKey (?cx + a) (?cy + b) (?cz + c)"
    using f(1-4) by (simp_all add: o mkOffset_def)
  define T where "T = targetVisibility (chebyshev a b c) c ?cz (vec_z cam')"
  define cur where "cur = (case buildPrevMap prev (chunk_key c') of
                             None \<Rightarrow> 0 | Some p \<Rightarrow> chunk_visibility p)"
  have vis: "chunk_visibility c' = lerp cur T VISIBILITY_LERP"
    using f(5) by (simp add: T_def cur_def o mkOffset_def)
  have kept: "\<not> (chunk_visibility c' < 0.01 \<and> T = 0)"
    using f(6) by (simp add: T_def o mkOffset_def)
  have Tr: "0 \<le> T" "T \<le> 1"
    using targetVisibility_range [of "chebyshev a b c" c ?cz "vec_z cam'"] by (simp_all add: T_def)
  have found: "p \<in> set prev \<and> chunk_key p = chunk_key c' \<and> chunkInv cam p"
    if "buildPrevMap prev (chunk_key c') = Some p" for p
    using buildPrevMap_Some [OF that] inv by (simp add: chunksInv_def)
  have curr: "0 \<le> cur" "cur \<le> 1"
  proof -
    show "0 \<le> cur"
    proof (cases "buildPrevMap prev (chunk_key c')")
      case None then show ?thesis by (simp add: cur_def)
    next
      case (Some p)
      from found [OF Some] have "0 \<le> chunk_visibility p" by (simp add: chunkInv_def)
      with Some show ?thesis by (simp add: cur_def)
    qed
    show "cur \<le> 1"
    proof (cases "buildPrevMap prev (chunk_key c')")
      case None then show ?thesis by (simp add: cur_def)
    next
      case (Some p)
      from found [OF Some] have "chunk_visibility p \<le> 1" by (simp add: chunkInv_def)
      with Some show ?thesis by (simp add: cur_def)
    qed
  qed
  from lerp_unit [OF curr Tr]
  have vr: "0 \<le> chunk_visibility c'" "chunk_visibility c' \<le> 1" by (simp_all add: vis)
  have edge: "\<exists>p. chunkInv cam p \<and> chunk_cx p = chunk_cx c' \<and> chunk_cy p = chunk_cy c' \<and>
                chunk_cz p = chunk_cz c' \<and> chunk_visibility c' = 0.82 * chunk_visibility p"
    if "3 \<le> chebyshev a b c"
  proof -
    from that have T0: "T = 0" by (simp add: T_def targetVisibility_far)
    then have v: "chunk_visibility c' = 0.82 * cur" by (simp add: vis lerp_to_zero)
    from kept T0 have "\<not> chunk_visibility c' < 0.01" by simp
    with v have "cur \<noteq> 0" by auto
    then obtain p where p: "buildPrevMap prev (chunk_key c') = Some p"
      by (cases "buildPrevMap prev (chunk_key c')") (simp_all add: cur_def)
    then have cp: "cur = chunk_visibility p" by (simp add: cur_def)
    from found [OF p] key have "chunkInv cam p" "chunk_key p = chunkKey (?cx + a) (?cy + b) (?cz + c)"
      by simp_all
    from key_coords [OF this] this(1) v cp co show ?thesis
      by (intro exI [of _ p]) simp
  qed
  have fx: "fadeBound (vec_x cam') (chunk_cx c') (chunk_visibility c')"
  proof (rule axis_fade [OF r(1) co(1) close(1)])
    assume "\<bar>a\<bar> = 3"
    then have "3 \<le> chebyshev a b c" by (simp add: chebyshev_far)
    from edge [OF this] obtain p where p: "chunkInv cam p" "chunk_cx p = chunk_cx c'"
      "chunk_visibility c' = 0.82 * chunk_visibility p" by blast
    then show "\<exists>v. chunk_visibility c' = 0.82 * v \<and>
          fadeBound (vec_x cam) (chunk_cx c') v \<and> v \<le> 1"
      by (intro exI [of _ "chunk_visibility p"]) (simp add: chunkInv_def)
  qed
  have fy: "fadeBound (vec_y cam') (chunk_cy c') (chunk_visibility c')"
  proof (rule axis_fade [OF r(2) co(2) close(2)])
    assume "\<bar>b\<bar> = 3"
    then have "3 \<le> chebyshev a b c" by (simp add: chebyshev_far)
    from edge [OF this] obtain p where p: "chunkInv cam p" "chunk_cy p = chunk_cy c'"
      "chunk_visibility c' = 0.82 * chunk_visibility p" by blast
    then show "\<exists>v. chunk_visibility c' = 0.82 * v \<and>
          fadeBound (vec_y cam) (chunk_cy c') v \<and> v \<le> 1"
      by (intro exI [of _ "chunk_visibility p"]) (simp add: chunkInv_def)
  qed
  have fz: "fadeBound (vec_z cam') (chunk_cz c') (chunk_visibility c')"
  proof (rule axis_fade [OF r(3) co(3) close(3)])
    assume "\<bar>c\<bar> = 3"
    then have "3 \<le> chebyshev a b c" by (simp add: chebyshev_far)
    from edge [OF this] obtain p where p: "chunkInv cam p" "chunk_cz p = chunk_cz c'"
      "chunk_visibility c' = 0.82 * chunk_visibility p" by blast
    then show "\<exists>v. chunk_visibility c' = 0.82 * v \<and>
          fadeBound (vec_z cam) (chunk_cz c') v \<and> v \<le> 1"
      by (intro exI [of _ "chunk_visibility p"]) (simp add: chunkInv_def)
  qed
  from key co vr fx fy fz show "chunkInv cam' c'"
    by (simp add: chunkInv_def)
qed

lemma fadeBound_inner:
  assumes "\<bar>i - cameraChunk p\<bar> \<le> 2"
  shows "fadeBound p i v"
proof -
  from assms have "i - cameraChunk p \<noteq> 3" "i - cameraChunk p \<noteq> - 3"
    "\<bar>i - cameraChunk p\<bar> \<le> 3"
    by linarith+
  then show ?thesis unfolding fadeBound_def by blast
qed

lemma fadeBound_zero:
  assumes "\<bar>i - cameraChunk p\<bar> \<le> 3"
  shows "fadeBound p i 0"
proof -
  note b = cameraChunk_bounds [of p]
  have hi: "(of_int (cameraChunk p) + 1) * CHUNK_SIZE - p \<le> 3.2 * real 35"
    using b by (simp add: CHUNK_SIZE_def)
  have lo: "p - of_int (cameraChunk p) * CHUNK_SIZE \<le> 3.2 * real 35"
    using b by (simp add: CHUNK_SIZE_def)
  have z: "(0 :: real) \<le> 0.82 ^ 35" by simp
  from hi lo z assms show ?thesis unfolding fadeBound_def by blast
qed

lemma cameraChunk_start: "cameraChunk 0 = 0" "cameraChunk 50 = 0"
  by (simp_all add: cameraChunk_def CHUNK_SIZE_def)

lemma initialChunks_mem:
  "p \<in> set initialChunks \<longleftrightarrow>
     (\<exists>a b c. \<bar>a\<bar> \<le> 3 \<and> \<bar>b\<bar> \<le> 3 \<and> \<bar>c\<bar> \<le> 3 \<and>
        p = \<lparr>chunk_key = chunkKey a b c, chunk_cx = a, chunk_cy = b, chunk_cz = c,
              chunk_visibility = targetVisibility (chebyshev a b c) c 0 0\<rparr>)"
proof
  assume "p \<in> set initialChunks"
  then obtain off where "off \<in> set CHUNK_OFFSETS"
    and p: "p = \<lparr>chunk_key = chunkKey (off_dx off) (off_dy off) (off_dz off),
             chunk_cx = off_dx off, chunk_cy = off_dy off, chunk_cz = off_dz off,
             chunk_visibility = targetVisibility (off_dist off) (off_dz off) 0 0\<rparr>"
    by (auto simp: initialChunks_def Let_def)
  then obtain a b c where "off = mkOffset a b c" "\<bar>a\<bar> \<le> 3" "\<bar>b\<bar> \<le> 3" "\<bar>c\<bar> \<le> 3"
    unfolding set_CHUNK_OFFSETS by blast
  with p show "\<exists>a b c. \<bar>a\<bar> \<le> 3 \<and> \<bar>b\<bar> \<le> 3 \<and> \<bar>c\<bar> \<le> 3 \<and>
        p = \<lparr>chunk_key = chunkKey a b c, chunk_cx = a, chunk_cy = b, chunk_cz = c,
              chunk_visibility = targetVisibility (chebyshev a b c) c 0 0\<rparr>"
    by (intro exI [of _ a] exI [of _ b] exI [of _ c]) (simp add: mkOffset_def)
next
  assume "\<exists>a b c. \<bar>a\<bar> \<le> 3 \<and> \<bar>b\<bar> \<le> 3 \<and> \<bar>c\<bar> \<le> 3 \<and>
        p = \<lparr>chunk_key = chunkKey a b c, chunk_cx = a, chunk_cy = b, chunk_cz = c,
              chunk_visibility = targetVisibility (chebyshev a b c) c 0 0\<rparr>"
  then obtain a b c where r: "\<bar>a\<bar> \<le> 3" "\<bar>b\<bar> \<le> 3" "\<bar>c\<bar> \<le> 3"
    and p: "p = \<lparr>chunk_key = chunkKey a b c, chunk_cx = a, chunk_cy = b, chunk_cz = c,
              chunk_visibility = targetVisibility (chebyshev a b c) c 0 0\<rparr>"
    by blast
  from r have "mkOffset a b c \<in> set CHUNK_OFFSETS"
    unfolding set_CHUNK_OFFSETS by blast
  then have "(\<lambda>off. \<lparr>chunk_key = chunkKey (off_dx off) (off_dy off) (off_dz off),
             chunk_cx = off_dx off, chunk_cy = off_dy off, chunk_cz = off_dz off,
             chunk_visibility = targetVisibility (off_dist off) (off_dz off) 0 0\<rparr>)
           (mkOffset a b c) \<in> set initialChunks"
    unfolding initialChunks_def Let_def set_map by (rule imageI)
  then show "p \<in> set initialChunks" by (simp add: p mkOffset_def)
qed

lemma initialChunks_inv: "chunksInv (Vector3 0 0 50) initialChunks"
  unfolding chunksInv_def
proof (intro conjI ballI)
  show "distinct (map chunk_key initialChunks)" by (rule initialChunks_distinct)
  fix p assume "p \<in> set initialChunks"
  then obtain a b c where r: "\<bar>a\<bar> \<le> 3" "\<bar>b\<bar> \<le> 3" "\<bar>c\<bar> \<le> 3"
    and p: "p = \<lparr>chunk_key = chunkKey a b c, chunk_cx = a, chunk_cy = b, chunk_cz = c,
              chunk_visibility = targetVisibility (chebyshev a b c) c 0 0\<rparr>"
    unfolding initialChunks_mem by blast
  define v where "v = targetVisibility (chebyshev a b c) c 0 0"
  have vr: "0 \<le> v" "v \<le> 1"
    using targetVisibility_range [of "chebyshev a b c" c 0 0] by (simp_all add: v_def)
  have axis: "fadeBound q d v"
    if "\<bar>d\<bar> \<le> 3" "cameraChunk q = 0" "\<bar>d\<bar> = 3 \<Longrightarrow> 3 \<le> chebyshev a b c" for q d
  proof (cases "\<bar>d\<bar> = 3")
    case True
    from that(3) [OF True] have "v = 0" by (simp add: v_def targetVisibility_far)
    with fadeBound_zero [of d q] that(1,2) show ?thesis by simp
  next
    case False
    with that(1) have "\<bar>d\<bar> \<le> 2" by linarith
    with that(2) show ?thesis by (intro fadeBound_inner) simp
  qed
  have "fadeBound 0 a v" "fadeBound 0 b v" "fadeBound 50 c v"
    using r by (auto intro!: axis simp: cameraChunk_start chebyshev_far)
  with vr show "chunkInv (Vector3 0 0 50) p"
    by (simp add: chunkInv_def p Vector3_def v_def)
qed

lemma useFrame_chunks:
  "chunks (useFrame s) =
     setChunks (cameraChunk (vec_x (cameraPosition (useFrame s))))
       (cameraChunk (vec_y (cameraPosition (useFrame s))))
       (cameraChunk (vec_z (cameraPosition (useFrame s))))
       (vec_z (cameraPosition (useFrame s))) (chunks s)"
  by (simp add: useFrame_def Let_def integrate_others)

lemma run_chunksInv: "chunksInv (cameraPosition (run steps)) (chunks (run steps))"
proof (induction steps rule: rev_induct)
  case Nil
  show ?case using initialChunks_inv by (simp add: run_def initialController_def)
next
  case (snoc a steps)
  show ?case
  proof (cases a)
    case (Input e)
    with snoc show ?thesis by (simp only: run_snoc step.simps dispatch_fields)
  next
    case Frame
    have "chunksInv (cameraPosition (useFrame (run steps))) (chunks (useFrame (run steps)))"
      unfolding useFrame_chunks [of "run steps"]
      by (rule setChunks_inv [OF snoc run_camera_close])
    with Frame show ?thesis by (simp only: run_snoc step.simps)
  qed
qed

lemma nextChunk_target:
  assumes "nextChunk prevMap (cameraChunk (vec_x cam)) (cameraChunk (vec_y cam))
             (cameraChunk (vec_z cam)) (vec_z cam) (mkOffset a b c) = Some c'"
  shows "chunkTarget cam c' = targetVisibility (chebyshev a b c) c (cameraChunk (vec_z cam)) (vec_z cam)"
  using nextChunk_Some(2-4) [OF assms]
  by (simp add: chunkTarget_def Let_def mkOffset_def)

text \<open>
  Claim C2 (visibility bounded and eased). Along every run from the mounted state, every
  chunk of the active list has visibility in \<open>[0, 1]\<close>, before and after a frame. For
  a chunk of the list after a frame, the change from its previous visibility (that of the
  chunk with the same key in the list before the frame, or 0 when there is none) has
  magnitude exactly 0.18 times the distance between the previous visibility and the
  frame's target for the chunk, and so at most 0.18.
\<close>

theorem visibility_bounded_and_eased:
  "(\<forall>c \<in> set (chunks (run steps)). 0 \<le> chunk_visibility c \<and> chunk_visibility c \<le> 1) \<and>
   (\<forall>c' \<in> set (chunks (useFrame (run steps))).
      0 \<le> chunk_visibility c' \<and> chunk_visibility c' \<le> 1 \<and>
      (\<forall>p \<in> set (chunks (run steps)). chunk_key p = chunk_key c' \<longrightarrow>
         \<bar>chunk_visibility c' - chunk_visibility p\<bar>
           = 0.18 * \<bar>chunkTarget (cameraPosition (useFrame (run steps))) c' - chunk_visibility p\<bar> \<and>
         \<bar>chunk_visibility c' - chunk_visibility p\<bar> \<le> 0.18) \<and>
      (chunk_key c' \<notin> chunk_key ` set (chunks (run steps)) \<longrightarrow>
         \<bar>chunk_visibility c' - 0\<bar>
           = 0.18 * \<bar>chunkTarget (cameraPosition (useFrame (run steps))) c' - 0\<bar> \<and>
         \<bar>chunk_visibility c' - 0\<bar> \<le> 0.18))"
proof (rule conjI; rule ballI)
  fix c assume "c \<in> set (chunks (run steps))"
  with run_chunksInv [of steps]
  show "0 \<le> chunk_visibility c \<and> chunk_visibility c \<le> 1"
    by (simp add: chunksInv_def chunkInv_def)
next
  let ?s = "run steps" and ?s' = "useFrame (run steps)"
  let ?cam = "cameraPosition ?s'"
  fix c' assume c': "c' \<in> set (chunks ?s')"
  have "?s' = run (steps @ [Frame])" by (simp add: run_snoc)
  with run_chunksInv [of "steps @ [Frame]"] c'
  have vr: "0 \<le> chunk_visibility c'" "chunk_visibility c' \<le> 1"
    by (simp_all add: chunksInv_def chunkInv_def)
  from c' obtain off where off: "off \<in> set CHUNK_OFFSETS"
    and nc: "nextChunk (buildPrevMap (chunks ?s)) (cameraChunk (vec_x ?cam))
               (cameraChunk (vec_y ?cam)) (cameraChunk (vec_z ?cam)) (vec_z ?cam) off = Some c'"
    unfolding useFrame_chunks [of ?s] setChunks_mem by blast
  from off obtain a b c where o: "off = mkOffset a b c"
    unfolding set_CHUNK_OFFSETS by blast
  define T where "T = chunkTarget ?cam c'"
  have T: "T = targetVisibility (off_dist off) (off_dz off) (cameraChunk (vec_z ?cam)) (vec_z ?cam)"
    using nextChunk_target [OF nc [unfolded o]] by (simp add: T_def o mkOffset_def)
  have Tr: "0 \<le> T" "T \<le> 1"
    unfolding T using targetVisibility_range by simp_all
  have vis: "chunk_visibility c' =
      lerp (case buildPrevMap (chunks ?s) (chunk_key c') of None \<Rightarrow> 0 | Some p \<Rightarrow> chunk_visibility p)
           T VISIBILITY_LERP"
    unfolding T by (rule nextChunk_Some(5) [OF nc])
  note inv = run_chunksInv [of steps]
  have old: "\<forall>p \<in> set (chunks ?s). chunk_key p = chunk_key c' \<longrightarrow>
         \<bar>chunk_visibility c' - chunk_visibility p\<bar>
           = 0.18 * \<bar>chunkTarget ?cam c' - chunk_visibility p\<bar> \<and>
         \<bar>chunk_visibility c' - chunk_visibility p\<bar> \<le> 0.18"
  proof (intro ballI impI)
    fix p assume p: "p \<in> set (chunks ?s)" "chunk_key p = chunk_key c'"
    from inv p(1) have d: "distinct (map chunk_key (chunks ?s))"
      and pr: "0 \<le> chunk_visibility p" "chunk_visibility p \<le> 1"
      by (simp_all add: chunksInv_def chunkInv_def)
    from buildPrevMap_distinct [OF d p(1)] p(2)
    have "buildPrevMap (chunks ?s) (chunk_key c') = Some p" by simp
    then have v: "chunk_visibility c' = lerp (chunk_visibility p) T VISIBILITY_LERP"
      by (simp add: vis)
    have e: "\<bar>chunk_visibility c' - chunk_visibility p\<bar> = 0.18 * \<bar>T - chunk_visibility p\<bar>"
      unfolding v by (rule lerp_step)
    have "\<bar>T - chunk_visibility p\<bar> \<le> 1" using Tr pr by linarith
    then have "0.18 * \<bar>T - chunk_visibility p\<bar> \<le> 0.18 * 1"
      by (intro mult_left_mono) simp_all
    with e show "\<bar>chunk_visibility c' - chunk_visibility p\<bar>
           = 0.18 * \<bar>chunkTarget ?cam c' - chunk_visibility p\<bar> \<and>
         \<bar>chunk_visibility c' - chunk_visibility p\<bar> \<le> 0.18"
      by (simp add: T_def)
  qed
  have new: "chunk_key c' \<notin> chunk_key ` set (chunks ?s) \<longrightarrow>
         \<bar>chunk_visibility c' - 0\<bar> = 0.18 * \<bar>chunkTarget ?cam c' - 0\<bar> \<and>
         \<bar>chunk_visibility c' - 0\<bar> \<le> 0.18"
  proof
    assume "chunk_key c' \<notin> chunk_key ` set (chunks ?s)"
    from buildPrevMap_None [OF this]
    have v: "chunk_visibility c' = lerp 0 T VISIBILITY_LERP" by (simp add: vis)
    have e: "\<bar>chunk_visibility c' - 0\<bar> = 0.18 * \<bar>T - 0\<bar>"
      unfolding v by (rule lerp_step)
    have "\<bar>T - 0\<bar> \<le> 1" using Tr by linarith
    then have "0.18 * \<bar>T - 0\<bar> \<le> 0.18 * 1"
      by (intro mult_left_mono) simp_all
    with e show "\<bar>chunk_visibility c' - 0\<bar> = 0.18 * \<bar>chunkTarget ?cam c' - 0\<bar> \<and>
         \<bar>chunk_visibility c' - 0\<bar> \<le> 0.18"
      by (simp add: T_def)
  qed
  from vr old new
  show "0 \<le> chunk_visibility c' \<and> chunk_visibility c' \<le> 1 \<and>
      (\<forall>p \<in> set (chunks ?s). chunk_key p = chunk_key c' \<longrightarrow>
         \<bar>chunk_visibility c' - chunk_visibility p\<bar>
           = 0.18 * \<bar>chunkTarget ?cam c' - chunk_visibility p\<bar> \<and>
         \<bar>chunk_visibility c' - chunk_visibility p\<bar> \<le> 0.18) \<and>
      (chunk_key c' \<notin> chunk_key ` set (chunks ?s) \<longrightarrow>
         \<bar>chunk_visibility c' - 0\<bar> = 0.18 * \<bar>chunkTarget ?cam c' - 0\<bar> \<and>
         \<bar>chunk_visibility c' - 0\<bar> \<le> 0.18)"
    by (intro conjI)
qed

subsection \<open>The first frame of a run without input\<close>

lemma first_frame_camera: "cameraPosition (useFrame initialController) = Vector3 0 0 50"
  by (rule vec3.equality)
     (simp_all add: useFrame_axes clampedTarget_def heldIncrement_def initialController_def
        Vector3_def lerp_def clamp_def)

lemma first_frame:
  "run [] = initialController"
  "chunks initialController = initialChunks"
  "cameraChunk (vec_x (cameraPosition (useFrame initialController))) = 0"
  "cameraChunk (vec_y (cameraPosition (useFrame initialController))) = 0"
  "cameraChunk (vec_z (cameraPosition (useFrame initialController))) = 0"
  "vec_z (cameraPosition (useFrame initialController)) = 50"
  by (simp_all add: run_def first_frame_camera Vector3_def cameraChunk_start)
     (simp add: initialController_def)

lemma first_frame_chunks: "chunks (useFrame (run [])) = setChunks 0 0 0 50 initialChunks"
  by (simp add: useFrame_chunks first_frame cameraChunk_start)

lemma initialAhead_mem: "initialAhead \<in> set initialChunks"
  unfolding initialChunks_mem initialAhead_def
  by (intro exI [of _ 0] exI [of _ 1]) (simp add: chebyshev_def)

lemma initialEdge_mem: "initialEdge \<in> set initialChunks"
  unfolding initialChunks_mem initialEdge_def
  by (intro exI [of _ 3] exI [of _ 0]) (simp add: chebyshev_def)

lemma initialAhead_visibility: "chunk_visibility initialAhead = 361 / 576"
  by (simp add: initialAhead_def targetVisibility_def gridTarget_def depthTarget_def
        RENDER_DISTANCE_def CHUNK_SIZE_def DEPTH_FADE_START_def DEPTH_FADE_END_def Let_def)

lemma ahead_target: "targetVisibility 1 1 0 50 = 1"
  by (simp add: targetVisibility_def gridTarget_def depthTarget_def
        RENDER_DISTANCE_def CHUNK_SIZE_def DEPTH_FADE_START_def Let_def)

lemma aheadAfterFrame_mem: "aheadAfterFrame \<in> set (chunks (useFrame (run [])))"
proof -
  have off: "mkOffset 0 0 1 \<in> set CHUNK_OFFSETS"
    unfolding set_CHUNK_OFFSETS by (intro CollectI exI [of _ 0] exI [of _ 1]) simp
  have look: "buildPrevMap initialChunks (chunkKey 0 0 1) = Some initialAhead"
    using buildPrevMap_distinct [OF initialChunks_distinct initialAhead_mem]
    by (simp add: initialAhead_def)
  have "nextChunk (buildPrevMap initialChunks) 0 0 0 50 (mkOffset 0 0 1) = Some aheadAfterFrame"
    by (simp add: nextChunk_def Let_def mkOffset_def chebyshev_def look ahead_target
          aheadAfterFrame_def initialAhead_def)
  with off have "\<exists>off \<in> set CHUNK_OFFSETS.
      nextChunk (buildPrevMap initialChunks) 0 0 0 50 off = Some aheadAfterFrame" ..
  then show ?thesis
    unfolding first_frame_chunks setChunks_mem .
qed


theorem visibility_bounded_and_eased_witness:
  "initialAhead \<in> set (chunks (run [])) \<and>
   aheadAfterFrame \<in> set (chunks (useFrame (run []))) \<and>
   chunk_key initialAhead = chunk_key aheadAfterFrame \<and>
   chunk_visibility initialAhead = 361 / 576 \<and>
   0 \<le> chunk_visibility aheadAfterFrame \<and> chunk_visibility aheadAfterFrame \<le> 1 \<and>
   \<bar>chunk_visibility aheadAfterFrame - chunk_visibility initialAhead\<bar>
     = 0.18 * \<bar>chunkTarget (cameraPosition (useFrame (run []))) aheadAfterFrame
                 - chunk_visibility initialAhead\<bar> \<and>
   \<bar>chunk_visibility aheadAfterFrame - chunk_visibility initialAhead\<bar> \<le> 0.18"
proof -
  have m: "initialAhead \<in> set (chunks (run []))"
    using initialAhead_mem by (simp add: first_frame)
  have k: "chunk_key initialAhead = chunk_key aheadAfterFrame"
    by (simp add: initialAhead_def aheadAfterFrame_def)
  from visibility_bounded_and_eased [of "[]"]
  have "\<forall>c' \<in> set (chunks (useFrame (run []))).
      0 \<le> chunk_visibility c' \<and> chunk_visibility c' \<le> 1 \<and>
      (\<forall>p \<in> set (chunks (run [])). chunk_key p = chunk_key c' \<longrightarrow>
         \<bar>chunk_visibility c' - chunk_visibility p\<bar>
           = 0.18 * \<bar>chunkTarget (cameraPosition (useFrame (run []))) c' - chunk_visibility p\<bar> \<and>
         \<bar>chunk_visibility c' - chunk_visibility p\<bar> \<le> 0.18)"
    by blast
  from bspec [OF this aheadAfterFrame_mem]
  have r: "0 \<le> chunk_visibility aheadAfterFrame" "chunk_visibility aheadAfterFrame \<le> 1"
    and e: "\<forall>p \<in> set (chunks (run [])). chunk_key p = chunk_key aheadAfterFrame \<longrightarrow>
         \<bar>chunk_visibility aheadAfterFrame - chunk_visibility p\<bar>
           = 0.18 * \<bar>chunkTarget (cameraPosition (useFrame (run []))) aheadAfterFrame
                       - chunk_visibility p\<bar> \<and>
         \<bar>chunk_visibility aheadAfterFrame - chunk_visibility p\<bar> \<le> 0.18"
    by blast+
  from bspec [OF e m] k
  have "\<bar>chunk_visibility aheadAfterFrame - chunk_visibility initialAhead\<bar>
     = 0.18 * \<bar>chunkTarget (cameraPosition (useFrame (run []))) aheadAfterFrame
                 - chunk_visibility initialAhead\<bar> \<and>
   \<bar>chunk_visibility aheadAfterFrame - chunk_visibility initialAhead\<bar> \<le> 0.18"
    by blast
  with m aheadAfterFrame_mem k initialAhead_visibility r show ?thesis by blast
qed

text \<open>
  Claim C3 (chunk retirement). Along every run from the mounted state, a chunk of the
  active list whose key is missing from the list after the next frame has target
  visibility exactly 0 in that frame, and its eased visibility, the \<open>lerp\<close> of its
  visibility toward that target, is below 0.01. So a chunk with positive target, or with
  eased visibility of 0.01 or more, stays. For a chunk still inside the offset cube this is
  the guard of the loop. A chunk that leaves the cube is dropped without a test, and the
  statement holds for it because the camera moves at most 3.2 per frame: the chunk has
  been at distance three, with target 0, for the 34 frames and more that the camera needs
  to cross a chunk of size 110.
\<close>

theorem chunk_retirement:
  assumes c: "c \<in> set (chunks (run steps))"
    and gone: "chunk_key c \<notin> chunk_key ` set (chunks (useFrame (run steps)))"
  shows "chunkTarget (cameraPosition (useFrame (run steps))) c = 0 \<and>
         lerp (chunk_visibility c) (chunkTarget (cameraPosition (useFrame (run steps))) c)
           VISIBILITY_LERP < 0.01"
proof -
  let ?s = "run steps"
  let ?cam = "cameraPosition ?s" and ?cam' = "cameraPosition (useFrame ?s)"
  let ?cx = "cameraChunk (vec_x ?cam')" and ?cy = "cameraChunk (vec_y ?cam')"
    and ?cz = "cameraChunk (vec_z ?cam')"
  note inv = run_chunksInv [of steps]
  from inv c have ci: "chunkInv ?cam c" and d: "distinct (map chunk_key (chunks ?s))"
    by (simp_all add: chunksInv_def)
  note close = run_camera_close [of steps]
  define a b e where "a = chunk_cx c - ?cx" and "b = chunk_cy c - ?cy" and "e = chunk_cz c - ?cz"
  have T: "chunkTarget ?cam' c = targetVisibility (chebyshev a b e) e ?cz (vec_z ?cam')"
    by (simp add: chunkTarget_def Let_def a_def b_def e_def)
  show ?thesis
  proof (cases "\<bar>a\<bar> \<le> 3 \<and> \<bar>b\<bar> \<le> 3 \<and> \<bar>e\<bar> \<le> 3")
    case True
    then have off: "mkOffset a b e \<in> set CHUNK_OFFSETS"
      unfolding set_CHUNK_OFFSETS by blast
    have key: "chunkKey (?cx + off_dx (mkOffset a b e)) (?cy + off_dy (mkOffset a b e))
                 (?cz + off_dz (mkOffset a b e)) = chunk_key c"
      using ci by (simp add: chunkInv_def mkOffset_def a_def b_def e_def)
    have none: "nextChunk (buildPrevMap (chunks ?s)) ?cx ?cy ?cz (vec_z ?cam') (mkOffset a b e) = None"
    proof (rule ccontr)
      assume "nextChunk (buildPrevMap (chunks ?s)) ?cx ?cy ?cz (vec_z ?cam') (mkOffset a b e) \<noteq> None"
      then obtain c' where
        n: "nextChunk (buildPrevMap (chunks ?s)) ?cx ?cy ?cz (vec_z ?cam') (mkOffset a b e) = Some c'"
        by blast
      with off have "c' \<in> set (chunks (useFrame ?s))"
        unfolding useFrame_chunks [of ?s] setChunks_mem by blast
      then have "chunk_key c' \<in> chunk_key ` set (chunks (useFrame ?s))"
        by (rule imageI)
      moreover have "chunk_key c' = chunk_key c"
        using nextChunk_Some(1) [OF n] key by simp
      ultimately show False using gone by simp
    qed
    note z = nextChunk_None [OF none]
    have look: "buildPrevMap (chunks ?s) (chunk_key c) = Some c"
      by (rule buildPrevMap_distinct [OF d c])
    have T0: "chunkTarget ?cam' c = 0"
      using z(1) by (simp add: T mkOffset_def)
    have "lerp (chunk_visibility c) (chunkTarget ?cam' c) VISIBILITY_LERP < 0.01"
      using z(2) unfolding key look by (simp add: T mkOffset_def)
    with T0 show ?thesis by blast
  next
    case False
    then have out: "4 \<le> \<bar>a\<bar> \<or> 4 \<le> \<bar>b\<bar> \<or> 4 \<le> \<bar>e\<bar>" by linarith
    then have T0: "chunkTarget ?cam' c = 0"
      by (simp add: T targetVisibility_far chebyshev_outside)
    from ci have fb: "fadeBound (vec_x ?cam) (chunk_cx c) (chunk_visibility c)"
      "fadeBound (vec_y ?cam) (chunk_cy c) (chunk_visibility c)"
      "fadeBound (vec_z ?cam) (chunk_cz c) (chunk_visibility c)"
      by (simp_all add: chunkInv_def)
    from out have "0.82 * chunk_visibility c < 0.01"
    proof (elim disjE)
      assume "4 \<le> \<bar>a\<bar>"
      then show ?thesis unfolding a_def by (rule fade_exit [OF fb(1) close(1)])
    next
      assume "4 \<le> \<bar>b\<bar>"
      then show ?thesis unfolding b_def by (rule fade_exit [OF fb(2) close(2)])
    next
      assume "4 \<le> \<bar>e\<bar>"
      then show ?thesis unfolding e_def by (rule fade_exit [OF fb(3) close(3)])
    qed
    then have "lerp (chunk_visibility c) (chunkTarget ?cam' c) VISIBILITY_LERP < 0.01"
      unfolding T0 lerp_to_zero .
    with T0 show ?thesis by blast
  qed
qed

theorem chunk_retirement_witness:
  "initialEdge \<in> set (chunks (run [])) \<and>
   chunk_key initialEdge \<notin> chunk_key ` set (chunks (useFrame (run []))) \<and>
   chunkTarget (cameraPosition (useFrame (run []))) initialEdge = 0 \<and>
   lerp (chunk_visibility initialEdge)
     (chunkTarget (cameraPosition (useFrame (run []))) initialEdge) VISIBILITY_LERP < 0.01"
proof -
  have m: "initialEdge \<in> set (chunks (run []))"
    using initialEdge_mem by (simp add: first_frame)
  have v0: "chunk_visibility initialEdge = 0"
    by (simp add: initialEdge_def targetVisibility_far)
  have look: "buildPrevMap initialChunks (chunkKey 3 0 0) = Some initialEdge"
    using buildPrevMap_distinct [OF initialChunks_distinct initialEdge_mem]
    by (simp add: initialEdge_def)
  have gone: "chunk_key initialEdge \<notin> chunk_key ` set (chunks (useFrame (run [])))"
  proof
    assume "chunk_key initialEdge \<in> chunk_key ` set (chunks (useFrame (run [])))"
    then obtain c' where "c' \<in> set (setChunks 0 0 0 50 initialChunks)"
      and k: "chunk_key c' = chunkKey 3 0 0"
      unfolding first_frame_chunks by (auto simp: initialEdge_def)
    then obtain off where off: "off \<in> set CHUNK_OFFSETS"
      and n: "nextChunk (buildPrevMap initialChunks) 0 0 0 50 off = Some c'"
      unfolding setChunks_mem by blast
    from off obtain a b c where o: "off = mkOffset a b c"
      unfolding set_CHUNK_OFFSETS by blast
    note f = nextChunk_Some [OF n]
    from f(1) k chunkKey_inj [of "0 + a" "0 + b" "0 + c" 3 0 0]
    have abc: "a = 3" "b = 0" "c = 0" by (simp_all add: o mkOffset_def)
    have T0: "targetVisibility (off_dist off) (off_dz off) 0 50 = 0"
      by (simp add: o abc mkOffset_def chebyshev_def targetVisibility_far)
    have "chunk_visibility c' = 0"
      using f(5) by (simp add: k look v0 T0 lerp_def)
    with f(6) T0 show False by simp
  qed
  from chunk_retirement [OF m gone] m gone show ?thesis by blast
qed

section \<open>Placement generation is repeatable\<close>









end
